theory Spec2Isabelle
  imports Main
begin

section \<open>Strings\<close>

text \<open>
  The strings the code receives (pathnames, patterns, method names) are modelled as
  \<^typ>\<open>string\<close>: a list of 8-bit characters, each standing for the code unit of the same
  number. A URL pathname and an HTTP method token are ASCII, so nothing a request
  carries is lost. The backslash cannot be written inside a string literal and gets a
  name.
\<close>

abbreviation bslash :: char where
  "bslash \<equiv> CHR 0x5C"

text \<open>\<^verbatim>\<open>s.startsWith(t)\<close> and \<^verbatim>\<open>s.endsWith(t)\<close>.\<close>

definition startsWith :: "string \<Rightarrow> string \<Rightarrow> bool" where
  "startsWith s t = (take (length t) s = t)"

definition endsWith :: "string \<Rightarrow> string \<Rightarrow> bool" where
  "endsWith s t = (length t \<le> length s \<and> drop (length s - length t) s = t)"

text \<open>
  \<^verbatim>\<open>s.split('/')\<close>: the pieces between the slashes, in order. The result is never empty:
  the empty string splits into one empty piece.
\<close>

fun splitSlash :: "string \<Rightarrow> string list" where
  "splitSlash [] = [[]]"
| "splitSlash (c # cs) =
     (if c = CHR ''/'' then [] # splitSlash cs
      else (case splitSlash cs of [] \<Rightarrow> [[c]] | s # ss \<Rightarrow> (c # s) # ss))"

text \<open>
  \<^verbatim>\<open>s.replace(/lit/g, rep)\<close> for a regular expression that is a literal text \<open>lit\<close>:
  every occurrence found from left to right, without overlap, is replaced. The source
  only calls it with a non-empty \<open>lit\<close> and a replacement without \<^verbatim>\<open>$\<close>.
\<close>

function replaceAll :: "string \<Rightarrow> string \<Rightarrow> string \<Rightarrow> string" where
  "replaceAll lit rep [] = []"
| "replaceAll lit rep (c # cs) =
     (if lit \<noteq> [] \<and> take (length lit) (c # cs) = lit
      then rep @ replaceAll lit rep (drop (length lit - 1) cs)
      else c # replaceAll lit rep cs)"
  by pat_completeness auto
termination
  by (relation "measure (\<lambda>(lit, rep, s). length s)") auto

text \<open>
  \<^verbatim>\<open>s.toUpperCase()\<close>. Upper-casing can leave the 8-bit range and can lengthen the
  text, so its result is a list of code units, given by their numbers: the letters
  \<open>a\<close> to \<open>z\<close> and the Latin-1 letters 224 to 254 (but not the division sign 247)
  move down by 32, the micro sign 181 becomes the Greek capital mu 924, the sharp s
  223 becomes \<open>SS\<close>, the y with diaeresis 255 becomes 376, and every other 8-bit
  character stays. \<open>codeUnits\<close> reads a text of the model as such a list.
\<close>

type_synonym utf16 = "nat list"

definition codeUnits :: "string \<Rightarrow> utf16" where
  "codeUnits s = map of_char s"

definition upperChar :: "char \<Rightarrow> utf16" where
  "upperChar c =
     (let n = (of_char c :: nat) in
      if 97 \<le> n \<and> n \<le> 122 then [n - 32]
      else if n = 181 then [924]
      else if n = 223 then [83, 83]
      else if 224 \<le> n \<and> n \<le> 254 \<and> n \<noteq> 247 then [n - 32]
      else if n = 255 then [376]
      else [n])"

definition toUpperCase :: "string \<Rightarrow> utf16" where
  "toUpperCase s = concat (map upperChar s)"


section \<open>Regular expressions\<close>

text \<open>
  The glob compiler builds the source text of a regular expression and hands it to
  \<^verbatim>\<open>new RegExp\<close>. The model follows it: a lexer and a parser for the part of the
  JavaScript syntax the compiler can emit, and a matcher on the parsed expression.
  A source text outside that part is not guessed at: it yields \<open>Unsupported\<close>.
\<close>

datatype error = SyntaxError | Unsupported

text \<open>
  A character class: one character, the dot (every character but a line terminator;
  of the four that JavaScript excludes, line feed and carriage return are 8-bit
  characters), or \<^verbatim>\<open>[^/]\<close> (every character but the slash).
\<close>

datatype cclass = CChar char | CDot | CNotSlash

fun cmatch :: "cclass \<Rightarrow> char \<Rightarrow> bool" where
  "cmatch (CChar c) d = (d = c)"
| "cmatch CDot d = (d \<noteq> CHR 0x0A \<and> d \<noteq> CHR 0x0D)"
| "cmatch CNotSlash d = (d \<noteq> CHR ''/'')"

text \<open>
  The parsed expression. \<^verbatim>\<open>r+\<close> is \<open>Seq r (Star r)\<close> and \<^verbatim>\<open>r?\<close> is \<open>Alt r Empty\<close>;
  \<open>Zero\<close> matches nothing and only arises while matching.
\<close>

datatype regex =
    Zero
  | Empty
  | Atom cclass
  | Alt regex regex
  | Seq regex regex
  | Star regex

datatype token =
    TChr char | TDot | TNotSlash | TStar | TPlus | TQuest | TOpen | TClose | TBol | TEol

definition syntaxChars :: string where
  "syntaxChars = bslash # ''^$.*+?()[]{}|''"

definition consTok :: "token \<Rightarrow> error + token list \<Rightarrow> error + token list" where
  "consTok t r = (case r of Inl e \<Rightarrow> Inl e | Inr ts \<Rightarrow> Inr (t # ts))"

text \<open>
  The lexer. A backslash before a syntax character or a slash makes it literal; a
  backslash at the end is an error in JavaScript; any other escape is outside the
  model. Of the bracket classes only \<^verbatim>\<open>[^/]\<close> is read. \<^verbatim>\<open>(?:\<close> and \<^verbatim>\<open>(\<close> both
  open a group (a test does not observe captures); look-arounds, braces, a lone
  \<^verbatim>\<open>]\<close> and alternation are outside the model.
\<close>

fun tokenize :: "string \<Rightarrow> error + token list" where
  "tokenize [] = Inr []"
| "tokenize (c # cs) =
     (if c = bslash then
        (case cs of
           [] \<Rightarrow> Inl SyntaxError
         | d # ds \<Rightarrow>
             if d \<in> set syntaxChars \<or> d = CHR ''/'' then consTok (TChr d) (tokenize ds)
             else Inl Unsupported)
      else if c = CHR ''['' then
        (if take 3 cs = ''^/]'' then consTok TNotSlash (tokenize (drop 3 cs))
         else Inl Unsupported)
      else if c = CHR ''('' then
        (if take 2 cs = ''?:'' then consTok TOpen (tokenize (drop 2 cs))
         else if take 1 cs = ''?'' then Inl Unsupported
         else consTok TOpen (tokenize cs))
      else if c = CHR '')'' then consTok TClose (tokenize cs)
      else if c = CHR ''.'' then consTok TDot (tokenize cs)
      else if c = CHR ''*'' then consTok TStar (tokenize cs)
      else if c = CHR ''+'' then consTok TPlus (tokenize cs)
      else if c = CHR ''?'' then consTok TQuest (tokenize cs)
      else if c = CHR ''^'' then consTok TBol (tokenize cs)
      else if c = CHR ''$'' then consTok TEol (tokenize cs)
      else if c \<in> set ''{}]|'' then Inl Unsupported
      else consTok (TChr c) (tokenize cs))"

text \<open>
  The parser keeps the terms of the sequence being read (latest first), the enclosing
  sequences of the open groups, and whether the latest term can take a quantifier:
  a quantifier needs a term before it, and after a quantifier only the lazy mark
  \<^verbatim>\<open>?\<close> may follow (it changes which match is tried first, never whether one exists).
\<close>

datatype qstate = NoTerm | HasTerm | Quantified

fun seqOf :: "regex list \<Rightarrow> regex" where
  "seqOf [] = Empty"
| "seqOf (r # rs) = Seq r (seqOf rs)"

fun parseTokens :: "regex list list \<Rightarrow> regex list \<Rightarrow> qstate \<Rightarrow> token list \<Rightarrow> error + regex" where
  "parseTokens stk cur q [] = (if stk = [] then Inr (seqOf (rev cur)) else Inl SyntaxError)"
| "parseTokens stk cur q (TChr c # ts) = parseTokens stk (Atom (CChar c) # cur) HasTerm ts"
| "parseTokens stk cur q (TDot # ts) = parseTokens stk (Atom CDot # cur) HasTerm ts"
| "parseTokens stk cur q (TNotSlash # ts) = parseTokens stk (Atom CNotSlash # cur) HasTerm ts"
| "parseTokens stk cur q (TStar # ts) =
     (case (q, cur) of
        (HasTerm, r # rs) \<Rightarrow> parseTokens stk (Star r # rs) Quantified ts
      | _ \<Rightarrow> Inl SyntaxError)"
| "parseTokens stk cur q (TPlus # ts) =
     (case (q, cur) of
        (HasTerm, r # rs) \<Rightarrow> parseTokens stk (Seq r (Star r) # rs) Quantified ts
      | _ \<Rightarrow> Inl SyntaxError)"
| "parseTokens stk cur q (TQuest # ts) =
     (case (q, cur) of
        (HasTerm, r # rs) \<Rightarrow> parseTokens stk (Alt r Empty # rs) Quantified ts
      | (Quantified, _) \<Rightarrow> parseTokens stk cur NoTerm ts
      | _ \<Rightarrow> Inl SyntaxError)"
| "parseTokens stk cur q (TOpen # ts) = parseTokens (cur # stk) [] NoTerm ts"
| "parseTokens stk cur q (TClose # ts) =
     (case stk of
        [] \<Rightarrow> Inl SyntaxError
      | parent # stk' \<Rightarrow> parseTokens stk' (seqOf (rev cur) # parent) HasTerm ts)"
| "parseTokens stk cur q (TBol # ts) = Inl Unsupported"
| "parseTokens stk cur q (TEol # ts) = Inl Unsupported"

text \<open>
  \<^verbatim>\<open>new RegExp(src)\<close>, without flags. The compiler always writes \<^verbatim>\<open>^\<close> first and
  \<^verbatim>\<open>$\<close> last; the model reads expressions anchored at both ends, and the
  result is the expression between the anchors.
\<close>

definition RegExp_new :: "string \<Rightarrow> error + regex" where
  "RegExp_new src =
     (case tokenize src of
        Inl e \<Rightarrow> Inl e
      | Inr ts \<Rightarrow>
          (case ts of
             TBol # body \<Rightarrow>
               (if body \<noteq> [] \<and> last body = TEol then parseTokens [] [] NoTerm (butlast body)
                else Inl Unsupported)
           | _ \<Rightarrow> Inl Unsupported))"

text \<open>Matching by derivatives: what is left to match after reading one character.\<close>

fun nullable :: "regex \<Rightarrow> bool" where
  "nullable Zero = False"
| "nullable Empty = True"
| "nullable (Atom k) = False"
| "nullable (Alt r s) = (nullable r \<or> nullable s)"
| "nullable (Seq r s) = (nullable r \<and> nullable s)"
| "nullable (Star r) = True"

fun deriv :: "char \<Rightarrow> regex \<Rightarrow> regex" where
  "deriv c Zero = Zero"
| "deriv c Empty = Zero"
| "deriv c (Atom k) = (if cmatch k c then Empty else Zero)"
| "deriv c (Alt r s) = Alt (deriv c r) (deriv c s)"
| "deriv c (Seq r s) =
     (if nullable r then Alt (Seq (deriv c r) s) (deriv c s) else Seq (deriv c r) s)"
| "deriv c (Star r) = Seq (deriv c r) (Star r)"

text \<open>\<^verbatim>\<open>re.test(s)\<close> for an expression anchored at both ends: the whole of \<open>s\<close> matches.\<close>

fun RegExp_test :: "regex \<Rightarrow> string \<Rightarrow> bool" where
  "RegExp_test r [] = nullable r"
| "RegExp_test r (c # cs) = RegExp_test (deriv c r) cs"



section \<open>The glob compiler\<close>

text \<open>
  \<^verbatim>\<open>escapeRegex\<close>: \<^verbatim>\<open>str.replace(/[.+^${}()|[\]\\?]/g, '\\$&')\<close> puts a backslash
  before each of these characters. The star is not among them.
\<close>

definition escapedChars :: string where
  "escapedChars = ''.+^${}()|[]'' @ [bslash] @ ''?''"

definition escapeRegex :: "string \<Rightarrow> string" where
  "escapeRegex str = concat (map (\<lambda>c. if c \<in> set escapedChars then [bslash, c] else [c]) str)"

text \<open>
  The callback of \<^verbatim>\<open>segments.map\<close> in \<^verbatim>\<open>globToRegex\<close>, with the number of segments
  as a parameter. A segment with a star and other text that does not end in two stars
  is not escaped: \<^verbatim>\<open>segment.replace(/\*/g, '[^/]*/?')\<close>.
\<close>

definition transformSegment :: "nat \<Rightarrow> nat \<Rightarrow> string \<Rightarrow> string" where
  "transformSegment n index segment =
     (let isFirst = (index = 0); isLast = (index = n - 1) in
      if segment = ''**'' then
        (if isFirst \<and> isLast then ''.*''
         else if isFirst then ''.+''
         else if isLast then ''(?:/.*)?''
         else ''(?:/.*)?'')
      else if segment = ''*'' then ''/[^/]+''
      else if endsWith segment ''**'' then
        ''/'' @ escapeRegex (take (length segment - 2) segment) @ ''[^/]*/?''
      else if CHR ''*'' \<in> set segment then ''/'' @ replaceAll ''*'' ''[^/]*/?'' segment
      else ''/'' @ escapeRegex segment)"

text \<open>
  The source text that \<^verbatim>\<open>globToRegex\<close> passes to \<^verbatim>\<open>new RegExp\<close>
  (the segment compiler of \<^verbatim>\<open>part_001\<close> and of the build, which are the same).
\<close>

definition globSource :: "string \<Rightarrow> string" where
  "globSource pattern =
     (if pattern = ''/**'' then ''^/.*$''
      else
        let segments = splitSlash (drop 1 pattern);
            transformedSegments =
              map (\<lambda>(index, segment). transformSegment (length segments) index segment)
                (enumerate 0 segments);
            regexString = concat transformedSegments;
            regexString = (if \<not> startsWith regexString ''/'' then ''/'' @ regexString
                           else regexString)
        in ''^'' @ regexString @ ''$'')"

definition globToRegex :: "string \<Rightarrow> error + regex" where
  "globToRegex pattern = RegExp_new (globSource pattern)"

text \<open>
  The older \<^verbatim>\<open>globToRegex\<close> of \<^verbatim>\<open>part_001\<close> (lines 41 to 60), which rewrites the whole
  pattern text: escape, hide \<^verbatim>\<open>**\<close> behind a placeholder, turn \<^verbatim>\<open>*\<close> into
  \<^verbatim>\<open>[^/]*\<close>, turn the placeholder into \<^verbatim>\<open>.*\<close>, and make a final \<^verbatim>\<open>/*\<close> optional.
\<close>

definition globSource_legacy :: "string \<Rightarrow> string" where
  "globSource_legacy pattern =
     (let regexPattern =
            replaceAll ''___DOUBLE_STAR___'' ''.*''
              (replaceAll ''*'' ''[^/]*''
                (replaceAll ''**'' ''___DOUBLE_STAR___''
                  (concat (map (\<lambda>c. if c \<in> set (''.+?^${}()|[]'' @ [bslash])
                                      then [bslash, c] else [c]) pattern))));
          regexPattern =
            (if endsWith pattern ''/*''
             then (let basePath = take (length regexPattern - 6) regexPattern
                   in basePath @ ''(?:/[^/]*)?'')
             else regexPattern)
      in ''^'' @ regexPattern @ ''$'')"

definition globToRegex_legacy :: "string \<Rightarrow> error + regex" where
  "globToRegex_legacy pattern = RegExp_new (globSource_legacy pattern)"


section \<open>Patterns and the matcher\<close>

text \<open>
  \<^verbatim>\<open>MiddlewarePattern = string | RegExp\<close>. A regular expression supplied by the user is
  only ever tested against the pathname, so it is modelled by its test.
\<close>

datatype MiddlewarePattern = PString string | PRegExp "string \<Rightarrow> bool"

definition matchesPattern :: "string \<Rightarrow> MiddlewarePattern \<Rightarrow> error + bool" where
  "matchesPattern pathname pattern =
     (case pattern of
        PString p \<Rightarrow>
          if p = pathname then Inr True
          else if CHR ''*'' \<in> set p then
            (case globToRegex p of Inl e \<Rightarrow> Inl e | Inr re \<Rightarrow> Inr (RegExp_test re pathname))
          else Inr False
      | PRegExp test \<Rightarrow> Inr (test pathname))"

definition matchesPattern_legacy :: "string \<Rightarrow> MiddlewarePattern \<Rightarrow> error + bool" where
  "matchesPattern_legacy pathname pattern =
     (case pattern of
        PString p \<Rightarrow>
          if p = pathname then Inr True
          else if CHR ''*'' \<in> set p then
            (case globToRegex_legacy p of
               Inl e \<Rightarrow> Inl e
             | Inr re \<Rightarrow> Inr (RegExp_test re pathname))
          else Inr False
      | PRegExp test \<Rightarrow> Inr (test pathname))"

text \<open>
  \<^verbatim>\<open>patterns.some(p => match(pathname, p))\<close>: stops at the first pattern that matches;
  a pattern whose compilation throws before that ends the call.
\<close>

fun some :: "(MiddlewarePattern \<Rightarrow> error + bool) \<Rightarrow> MiddlewarePattern list \<Rightarrow> error + bool" where
  "some f [] = Inr False"
| "some f (p # ps) =
     (case f p of
        Inl e \<Rightarrow> Inl e
      | Inr b \<Rightarrow> if b then Inr True else some f ps)"

text \<open>
  The matcher configuration and the middleware module, as the type declarations of
  \<^verbatim>\<open>part_000\<close> give them; an optional field is an \<open>option\<close>, and a field that is
  present holds an array, which JavaScript takes as true also when it is empty. Of the
  request the code reads \<^verbatim>\<open>request.method\<close> (the field \<open>requestMethod\<close>) and
  \<^verbatim>\<open>new URL(request.url).pathname\<close>; the URL of a request is always a valid absolute
  URL, and its pathname is a field of the model.
\<close>

record MiddlewareMatcher =
  patterns :: "MiddlewarePattern list option"
  methods :: "string list option"

record Settings =
  matcher :: "MiddlewareMatcher option"

record MiddlewareModule =
  unstable_settings :: "Settings option"

record Request =
  pathname :: string
  requestMethod :: string

text \<open>\<^verbatim>\<open>middleware.unstable_settings?.matcher\<close>\<close>

definition matcherOf :: "MiddlewareModule \<Rightarrow> MiddlewareMatcher option" where
  "matcherOf middleware =
     (case unstable_settings middleware of None \<Rightarrow> None | Some s \<Rightarrow> matcher s)"

text \<open>
  \<^verbatim>\<open>shouldRunMiddleware\<close> of the build: the configured methods are upper-cased, the
  method of the request is taken as it is (\<^verbatim>\<open>methods.includes(request.method)\<close> compares
  code unit by code unit). On the declared type \<^verbatim>\<open>Array.isArray\<close>
  holds of \<^verbatim>\<open>matcher.patterns\<close>.
\<close>

definition shouldRunMiddleware :: "Request \<Rightarrow> MiddlewareModule \<Rightarrow> error + bool" where
  "shouldRunMiddleware request middleware =
     (case matcherOf middleware of
        None \<Rightarrow> Inr True
      | Some m \<Rightarrow>
          if (case methods m of
                None \<Rightarrow> False
              | Some ms \<Rightarrow>
                  (let ms' = map toUpperCase ms
                   in length ms' = 0 \<or> codeUnits (requestMethod request) \<notin> set ms'))
          then Inr False
          else
            (case patterns m of
               None \<Rightarrow> Inr True
             | Some ps \<Rightarrow>
                 if length ps = 0 then Inr False
                 else some (matchesPattern (pathname request)) ps))"

text \<open>
  \<^verbatim>\<open>shouldRunMiddleware\<close> of the two TypeScript sources in \<^verbatim>\<open>part_001\<close>: the configured
  methods are compared as they are. The older one (lines 6 to 35) comes with the older
  glob compiler, the newer one (lines 91 to 120) with the segment compiler.
\<close>

definition shouldRunMiddleware_legacy :: "Request \<Rightarrow> MiddlewareModule \<Rightarrow> error + bool" where
  "shouldRunMiddleware_legacy request middleware =
     (case matcherOf middleware of
        None \<Rightarrow> Inr True
      | Some m \<Rightarrow>
          if (case methods m of
                None \<Rightarrow> False
              | Some ms \<Rightarrow> length ms = 0 \<or> requestMethod request \<notin> set ms)
          then Inr False
          else
            (case patterns m of
               None \<Rightarrow> Inr True
             | Some ps \<Rightarrow>
                 if length ps = 0 then Inr False
                 else some (matchesPattern_legacy (pathname request)) ps))"

definition shouldRunMiddleware_ts :: "Request \<Rightarrow> MiddlewareModule \<Rightarrow> error + bool" where
  "shouldRunMiddleware_ts request middleware =
     (case matcherOf middleware of
        None \<Rightarrow> Inr True
      | Some m \<Rightarrow>
          if (case methods m of
                None \<Rightarrow> False
              | Some ms \<Rightarrow> length ms = 0 \<or> requestMethod request \<notin> set ms)
          then Inr False
          else
            (case patterns m of
               None \<Rightarrow> Inr True
             | Some ps \<Rightarrow>
                 if length ps = 0 then Inr False
                 else some (matchesPattern (pathname request)) ps))"

text \<open>
  The helpers of the test suites: a module with the given matcher, and one without
  settings.
\<close>

definition createMiddlewareModule :: "MiddlewareMatcher \<Rightarrow> MiddlewareModule" where
  "createMiddlewareModule m = \<lparr>unstable_settings = Some \<lparr>matcher = Some m\<rparr>\<rparr>"

definition createMiddlewareModuleWithoutMatcher :: MiddlewareModule where
  "createMiddlewareModuleWithoutMatcher = \<lparr>unstable_settings = None\<rparr>"


section \<open>What a regular expression matches\<close>

text \<open>
  The set of texts an expression matches, used to state what a compiled pattern
  accepts for every path; \<open>RegExp_test\<close> decides membership.
\<close>

definition conc :: "string set \<Rightarrow> string set \<Rightarrow> string set" where
  "conc A B = {u @ v |u v. u \<in> A \<and> v \<in> B}"

inductive_set star :: "string set \<Rightarrow> string set" for A :: "string set" where
  star_empty: "[] \<in> star A"
| star_more: "u \<in> A \<Longrightarrow> v \<in> star A \<Longrightarrow> u @ v \<in> star A"

fun lang :: "regex \<Rightarrow> string set" where
  "lang Zero = {}"
| "lang Empty = {[]}"
| "lang (Atom k) = {[c] |c. cmatch k c}"
| "lang (Alt r s) = lang r \<union> lang s"
| "lang (Seq r s) = conc (lang r) (lang s)"
| "lang (Star r) = star (lang r)"

text \<open>The expression that matches exactly the text \<open>s\<close>, term by term.\<close>

abbreviation lits :: "string \<Rightarrow> regex list" where
  "lits s \<equiv> map (\<lambda>c. Atom (CChar c)) s"

text \<open>
  A text that is empty or starts with a slash: what may stand before the last segment
  of a pattern that starts with a slash.
\<close>

definition rooted :: "string \<Rightarrow> bool" where
  "rooted s = (s = [] \<or> hd s = CHR ''/'')"

text \<open>
  The pathname of a request: \<^verbatim>\<open>url.pathname\<close> of an http(s) URL starts with a slash, and
  the URL parser leaves no line feed or carriage return in it.
\<close>

definition isPathname :: "string \<Rightarrow> bool" where
  "isPathname p = (startsWith p ''/'' \<and> CHR 0x0A \<notin> set p \<and> CHR 0x0D \<notin> set p)"


section \<open>The rows of the test suites\<close>

text \<open>
  The rows of the parameterised wildcard tests of \<^verbatim>\<open>part_002\<close>, which go with the segment
  compiler, and the wildcard tests of the older suite in \<^verbatim>\<open>part_001\<close>, which go with the
  older compiler: path, pattern, expected result.
\<close>

definition segmentCompilerRows :: "(string \<times> string \<times> bool) list" where
  "segmentCompilerRows =
     [
      (''/users/api'', ''/*/api'', True), (''/admin/api'', ''/*/api'', True),
      (''/v1/api'', ''/*/api'', True), (''/api'', ''/*/api'', False),
      (''/users/admin/api'', ''/*/api'', False), (''/a/b/api'', ''/*/api'', False),
      (''/api/v1/users'', ''/api/*/users'', True), (''/api/v2/users'', ''/api/*/users'', True),
      (''/api/admin/users'', ''/api/*/users'', True), (''/api/users'', ''/api/*/users'', False),
      (''/api/v1/admin/users'', ''/api/*/users'', False), (''/api/a/b/users'', ''/api/*/users'', False),
      (''/api/users'', ''/api/*'', True), (''/api'', ''/api/*'', False),
      (''/api/'', ''/api/*'', False), (''/api/v1/users'', ''/api/*'', False),
      (''/api/v1/admin/users'', ''/api/*'', False), (''/api'', ''/api*'', True),
      (''/api/'', ''/api*'', True), (''/api123'', ''/api*'', True),
      (''/apitest'', ''/api*'', True), (''/apis'', ''/api*'', True),
      (''/api/users'', ''/api*'', False), (''/api/v1/users'', ''/api*'', False),
      (''/api/v1/admin/users'', ''/api*'', False), (''/'', ''/**'', True),
      (''/api/users/123/profile'', ''/**'', True), (''/api'', ''/**/api'', False),
      (''/api/'', ''/**/api'', False), (''/users/api'', ''/**/api'', True),
      (''/admin/api'', ''/**/api'', True), (''/v1/api'', ''/**/api'', True),
      (''/users/admin/api'', ''/**/api'', True), (''/a/b/api'', ''/**/api'', True),
      (''/a/b/c/d/api'', ''/**/api'', True), (''/api/settings'', ''/**/api'', False),
      (''/admin/api/data'', ''/**/api'', False), (''/apis'', ''/**/api'', False),
      (''/api123'', ''/**/api'', False), (''/apitest'', ''/**/api'', False),
      (''/api/users'', ''/api/**/users'', True), (''/api/v1/users'', ''/api/**/users'', True),
      (''/api/v1/admin/users'', ''/api/**/users'', True), (''/api/a/b/c/d/users'', ''/api/**/users'', True),
      (''/api/users/settings'', ''/api/**/users'', False), (''/api/v1/users/data'', ''/api/**/users'', False),
      (''/api/'', ''/api/**'', True), (''/api/users'', ''/api/**'', True),
      (''/api/v1/users'', ''/api/**'', True), (''/api/v1/admin/users'', ''/api/**'', True),
      (''/api/a/b/c/d/users'', ''/api/**'', True), (''/api/users/settings'', ''/api/**'', True),
      (''/api/v1/users/data'', ''/api/**'', True), (''/api'', ''/api/**'', True),
      (''/v1/api/users/data'', ''/api/**'', False), (''/api'', ''/api**'', True),
      (''/api/'', ''/api**'', True), (''/api123'', ''/api**'', True),
      (''/apitest'', ''/api**'', True), (''/apis'', ''/api**'', True),
      (''/api/users'', ''/api**'', False), (''/api/v1/users'', ''/api**'', False),
      (''/api/v1/admin/users'', ''/api**'', False), (''/api/a/b/c/d/users'', ''/api**'', False),
      (''/api/users/settings'', ''/api**'', False), (''/api/v1/users/data'', ''/api**'', False),
      (''/v1/api'', ''/*/api/**'', True), (''/v1/api/users'', ''/*/api/**'', True),
      (''/v1/api/users/123'', ''/*/api/**'', True), (''/admin/api/settings/global'', ''/*/api/**'', True),
      (''/api'', ''/*/api/**'', False), (''/a/b/api'', ''/*/api/**'', False),
      (''/api/users'', ''/**/api/*'', False), (''/api/data'', ''/**/api/*'', False),
      (''/api/settings'', ''/**/api/*'', False), (''/admin/api/data'', ''/**/api/*'', True),
      (''/v1/api/users'', ''/**/api/*'', True), (''/admin/v1/api/users'', ''/**/api/*'', True),
      (''/api'', ''/**/api/*'', False), (''/api/'', ''/**/api/*'', False),
      (''/v1/api'', ''/**/api/*'', False), (''/api/users/123'', ''/**/api/*'', False),
      (''/api/v1/users'', ''/**/api/*'', False), (''/api/user/data'', ''/api/*/data/**'', True),
      (''/api/user/data/profile'', ''/api/*/data/**'', True), (''/api/admin/data/settings/global'', ''/api/*/data/**'', True),
      (''/api/data'', ''/api/*/data/**'', False), (''/api/user/admin/data'', ''/api/*/data/**'', False),
      (''/api/user/settings'', ''/api/*/data/**'', False), (''/v1/api/admin/users'', ''/*/api/*/users'', True),
      (''/admin/api/v2/users'', ''/*/api/*/users'', True), (''/api/v1/users'', ''/*/api/*/users'', False),
      (''/v1/api/users'', ''/*/api/*/users'', False), (''/a/b/api/v1/users'', ''/*/api/*/users'', False)]"

definition legacyCompilerRows :: "(string \<times> string \<times> bool) list" where
  "legacyCompilerRows =
     [
      (''/api'', ''/api/*'', True), (''/api/users/123'', ''/api/*'', False),
      (''/'', ''/api/*'', False), (''/admin/settings'', ''/admin/*'', True),
      (''/'', ''/**'', True), (''/api/users/123/profile'', ''/**'', True),
      (''/api/users/123/profile/settings'', ''/api/**'', True), (''/admin/users'', ''/api/**'', False),
      (''/api/users'', ''/api/*'', True)]"


section \<open>The matcher decides membership\<close>

lemma nullable_lang: "nullable r \<longleftrightarrow> [] \<in> lang r"
  by (induction r) (auto simp: conc_def intro: star_empty)

lemma star_cons_split:
  assumes "x \<in> star A" and "x = c # w"
  shows "\<exists>u v. w = u @ v \<and> c # u \<in> A \<and> v \<in> star A"
  using assms
proof (induction arbitrary: w rule: star.induct)
  case star_empty
  then show ?case by simp
next
  case (star_more u v)
  show ?case
  proof (cases u)
    case Nil
    with star_more show ?thesis by simp
  next
    case (Cons d u')
    with star_more.prems have "d = c" and "w = u' @ v" by simp_all
    with Cons star_more.hyps(1,2) show ?thesis by blast
  qed
qed

lemma lang_deriv: "w \<in> lang (deriv c r) \<longleftrightarrow> c # w \<in> lang r"
proof (induction r arbitrary: w)
  case (Seq r s)
  show ?case
  proof
    assume "w \<in> lang (deriv c (Seq r s))"
    then consider u v where "w = u @ v" "u \<in> lang (deriv c r)" "v \<in> lang s"
      | "nullable r" "w \<in> lang (deriv c s)"
      by (auto simp: conc_def split: if_splits)
    then show "c # w \<in> lang (Seq r s)"
    proof cases
      case 1
      then have "c # u \<in> lang r" using Seq.IH(1) by simp
      with 1 have "(c # u) @ v \<in> conc (lang r) (lang s)" unfolding conc_def by blast
      with 1 show ?thesis by simp
    next
      case 2
      then have "[] \<in> lang r" "c # w \<in> lang s" using Seq.IH(2) by (simp_all add: nullable_lang)
      then have "[] @ (c # w) \<in> conc (lang r) (lang s)" unfolding conc_def by blast
      then show ?thesis by simp
    qed
  next
    assume "c # w \<in> lang (Seq r s)"
    then obtain u v where uv: "c # w = u @ v" "u \<in> lang r" "v \<in> lang s"
      by (auto simp: conc_def)
    show "w \<in> lang (deriv c (Seq r s))"
    proof (cases u)
      case Nil
      with uv have "nullable r" "w \<in> lang (deriv c s)"
        using Seq.IH(2) by (simp_all add: nullable_lang)
      then show ?thesis by simp
    next
      case (Cons d u')
      with uv have "w = u' @ v" "u' \<in> lang (deriv c r)" using Seq.IH(1) by simp_all
      with uv(3) have "w \<in> conc (lang (deriv c r)) (lang s)" unfolding conc_def by blast
      then show ?thesis by simp
    qed
  qed
next
  case (Star r)
  show ?case
  proof
    assume "w \<in> lang (deriv c (Star r))"
    then obtain u v where "w = u @ v" "u \<in> lang (deriv c r)" "v \<in> star (lang r)"
      by (auto simp: conc_def)
    then have "(c # u) @ v \<in> star (lang r)" using Star.IH by (intro star_more) simp_all
    with \<open>w = u @ v\<close> show "c # w \<in> lang (Star r)" by simp
  next
    assume "c # w \<in> lang (Star r)"
    then obtain u v where "w = u @ v" "c # u \<in> lang r" "v \<in> star (lang r)"
      using star_cons_split[of "c # w" "lang r" c w] by auto
    then show "w \<in> lang (deriv c (Star r))" using Star.IH by (auto simp: conc_def)
  qed
qed (auto)

lemma RegExp_test_lang: "RegExp_test r s \<longleftrightarrow> s \<in> lang r"
  by (induction s arbitrary: r) (simp_all add: nullable_lang lang_deriv)

section \<open>Splitting and escaping\<close>

lemma splitSlash_not_Nil: "splitSlash s \<noteq> []"
  by (induction s) (auto split: list.splits)

lemma splitSlash_no_slash: "CHR ''/'' \<notin> set w \<Longrightarrow> splitSlash w = [w]"
  by (induction w) auto

lemma splitSlash_append:
  "splitSlash (xs @ CHR ''/'' # ys) = splitSlash xs @ splitSlash ys"
  by (induction xs) (auto split: list.splits simp: splitSlash_not_Nil)

lemma splitSlash_star_free:
  "CHR ''*'' \<notin> set s \<Longrightarrow> w \<in> set (splitSlash s) \<Longrightarrow> CHR ''*'' \<notin> set w"
  by (induction s arbitrary: w) (auto split: list.splits if_splits)

lemma escapeRegex_Nil: "escapeRegex [] = []"
  by (simp add: escapeRegex_def)

lemma escapeRegex_append: "escapeRegex (xs @ ys) = escapeRegex xs @ escapeRegex ys"
  by (simp add: escapeRegex_def)

lemma escapeRegex_slash: "escapeRegex (CHR ''/'' # s) = CHR ''/'' # escapeRegex s"
  by (simp add: escapeRegex_def escapedChars_def)

lemma join_escaped_segments:
  "concat (map (\<lambda>w. CHR ''/'' # escapeRegex w) (splitSlash s)) = CHR ''/'' # escapeRegex s"
proof (induction s)
  case Nil
  then show ?case by (simp add: escapeRegex_def)
next
  case (Cons c s)
  then show ?case
    by (cases "splitSlash s") (auto simp: escapeRegex_def escapedChars_def splitSlash_not_Nil)
qed

lemma endsWith_subset: "endsWith w t \<Longrightarrow> set t \<subseteq> set w"
  unfolding endsWith_def using set_drop_subset[of "length w - length t" w] by auto

lemma endsWith_append: "endsWith (s @ t) t"
  by (simp add: endsWith_def)

lemma transformSegment_star_free:
  "CHR ''*'' \<notin> set w \<Longrightarrow> transformSegment n i w = CHR ''/'' # escapeRegex w"
  using endsWith_subset[of w "''**''"] by (auto simp: transformSegment_def Let_def)

lemma transform_star_free_segments:
  "\<forall>w \<in> set ws. CHR ''*'' \<notin> set w \<Longrightarrow>
   concat (map (\<lambda>(i, w). transformSegment n i w) (enumerate k ws))
     = concat (map (\<lambda>w. CHR ''/'' # escapeRegex w) ws)"
  by (induction ws arbitrary: k) (simp_all add: transformSegment_star_free)

lemma transform_literal_text:
  "CHR ''*'' \<notin> set s \<Longrightarrow>
   concat (map (\<lambda>(i, w). transformSegment n i w) (enumerate k (splitSlash s)))
     = CHR ''/'' # escapeRegex s"
  using transform_star_free_segments[of "splitSlash s" n k] splitSlash_star_free[of s]
  by (simp add: join_escaped_segments)

section \<open>Reading escaped text\<close>

lemma consTok_Inr: "consTok t (Inr ts) = Inr (t # ts)"
  by (simp add: consTok_def)

lemma consTok_Inl: "consTok t (Inl e) = Inl e"
  by (simp add: consTok_def)

lemma tokenize_escaped_char:
  "c \<noteq> CHR ''*'' \<Longrightarrow>
   tokenize ((if c \<in> set escapedChars then [bslash, c] else [c]) @ rest) = consTok (TChr c) (tokenize rest)"
  by (auto simp: escapedChars_def syntaxChars_def)

lemma tokenize_escapeRegex:
  "CHR ''*'' \<notin> set s \<Longrightarrow> tokenize rest = Inr ts \<Longrightarrow>
   tokenize (escapeRegex s @ rest) = Inr (map TChr s @ ts)"
proof (induction s)
  case Nil
  then show ?case by (simp add: escapeRegex_def)
next
  case (Cons c s)
  then have "tokenize (escapeRegex s @ rest) = Inr (map TChr s @ ts)" by simp
  moreover have "escapeRegex (c # s) @ rest
      = (if c \<in> set escapedChars then [bslash, c] else [c]) @ (escapeRegex s @ rest)"
    by (simp add: escapeRegex_def)
  moreover have "c \<noteq> CHR ''*''" using Cons.prems by auto
  ultimately show ?case
    using tokenize_escaped_char[of c "escapeRegex s @ rest"] by (simp add: consTok_Inr)
qed

lemma parseTokens_literal:
  "parseTokens stk cur q (map TChr s @ ts)
     = parseTokens stk (rev (map (\<lambda>c. Atom (CChar c)) s) @ cur) (if s = [] then q else HasTerm) ts"
  by (induction s arbitrary: cur q) simp_all

lemma RegExp_new_literal:
  assumes "CHR ''*'' \<notin> set lit" and "tokenize tail = Inr (tt @ [TEol])"
  shows "RegExp_new (CHR ''^'' # escapeRegex lit @ tail)
           = parseTokens [] (rev (map (\<lambda>c. Atom (CChar c)) lit))
               (if lit = [] then NoTerm else HasTerm) tt"
proof -
  have "tokenize (CHR ''^'' # escapeRegex lit @ tail) = Inr (TBol # map TChr lit @ tt @ [TEol])"
    using tokenize_escapeRegex[OF assms] by (simp add: consTok_Inr)
  moreover have "butlast (map TChr lit @ tt @ [TEol]) = map TChr lit @ tt"
    by (simp add: butlast_append)
  ultimately show ?thesis
    using parseTokens_literal[of "[]" "[]" NoTerm lit tt]
    by (simp add: RegExp_new_def)
qed

lemma in_conc: "x \<in> conc A B \<longleftrightarrow> (\<exists>u v. x = u @ v \<and> u \<in> A \<and> v \<in> B)"
  by (auto simp: conc_def)

lemma lang_seqOf_append:
  "lang (seqOf (rs @ ss)) = conc (lang (seqOf rs)) (lang (seqOf ss))"
proof (induction rs)
  case Nil
  show ?case by (auto simp: conc_def)
next
  case (Cons r rs)
  have "conc (lang r) (conc (lang (seqOf rs)) (lang (seqOf ss)))
      = conc (conc (lang r) (lang (seqOf rs))) (lang (seqOf ss))"
    unfolding conc_def
    by (auto, metis append.assoc, metis append.assoc)
  with Cons show ?case by simp
qed

lemma lang_seqOf_literal: "lang (seqOf (map (\<lambda>c. Atom (CChar c)) s)) = {s}"
  by (induction s) (auto simp: conc_def)

lemma in_lang_literal_prefix:
  "x \<in> lang (seqOf (map (\<lambda>c. Atom (CChar c)) s @ rs))
     \<longleftrightarrow> (\<exists>w. x = s @ w \<and> w \<in> lang (seqOf rs))"
  by (simp add: lang_seqOf_append lang_seqOf_literal in_conc)

lemma star_atoms: "star {[c] |c. P c} = {w. \<forall>c \<in> set w. P c}"
proof (intro set_eqI iffI)
  fix w assume "w \<in> star {[c] |c. P c}"
  then show "w \<in> {w. \<forall>c \<in> set w. P c}"
    by (induction rule: star.induct) auto
next
  fix w assume "w \<in> {w. \<forall>c \<in> set w. P c}"
  then show "w \<in> star {[c] |c. P c}"
  proof (induction w)
    case Nil
    show ?case by (rule star_empty)
  next
    case (Cons c w)
    then have "[c] \<in> {[c] |c. P c}" and "w \<in> star {[c] |c. P c}" by auto
    then have "[c] @ w \<in> star {[c] |c. P c}" by (rule star_more)
    then show ?case by simp
  qed
qed

lemma lang_Star_Atom: "lang (Star (Atom k)) = {w. \<forall>c \<in> set w. cmatch k c}"
  by (simp add: star_atoms)

section \<open>The source text of pattern families\<close>

lemma startsWith_slash: "startsWith (CHR ''/'' # s) ''/''"
  by (simp add: startsWith_def)

text \<open>The source text for a pattern made of wildcard-free text and one last segment.\<close>

lemma globSource_last_segment:
  assumes free: "CHR ''*'' \<notin> set b" and w: "CHR ''/'' \<notin> set w"
  shows "globSource (CHR ''/'' # b @ CHR ''/'' # w)
           = CHR ''^'' # CHR ''/'' # escapeRegex b
               @ transformSegment (Suc (length (splitSlash b))) (length (splitSlash b)) w @ ''$''"
proof -
  have ne: "CHR ''/'' # b @ CHR ''/'' # w \<noteq> ''/**''"
  proof
    assume "CHR ''/'' # b @ CHR ''/'' # w = ''/**''"
    then have "set (b @ CHR ''/'' # w) = set ''**''" by simp
    then show False by auto
  qed
  have segs: "splitSlash (b @ CHR ''/'' # w) = splitSlash b @ [w]"
    using w by (simp add: splitSlash_append splitSlash_no_slash)
  show ?thesis
    using ne free
    by (simp add: globSource_def segs enumerate_append_eq transform_literal_text
        startsWith_slash Let_def del: splitSlash.simps)
qed

lemma globSource_one_segment:
  assumes "CHR ''/'' \<notin> set w" and "w \<noteq> ''**''"
  shows "globSource (CHR ''/'' # w)
           = CHR ''^'' # (if startsWith (transformSegment 1 0 w) ''/'' then transformSegment 1 0 w
                          else ''/'' @ transformSegment 1 0 w) @ ''$''"
  using assms by (simp add: globSource_def splitSlash_no_slash Let_def del: splitSlash.simps)

lemma transformSegment_star: "transformSegment n i ''*'' = ''/[^/]+''"
  by (simp add: transformSegment_def Let_def)

lemma transformSegment_prefix_stars:
  assumes "p \<noteq> []"
  shows "transformSegment n i (p @ ''**'') = CHR ''/'' # escapeRegex p @ ''[^/]*/?''"
proof -
  have "p @ ''**'' \<noteq> ''**''" "p @ ''**'' \<noteq> ''*''" using assms by (auto simp: append_eq_Cons_conv)
  moreover have "endsWith (p @ ''**'') ''**''" by (rule endsWith_append)
  ultimately show ?thesis by (simp add: transformSegment_def Let_def)
qed

lemma transformSegment_last_stars:
  "0 < n \<Longrightarrow> transformSegment (Suc n) n ''**'' = ''(?:/.*)?''"
  by (simp add: transformSegment_def Let_def)


lemma globSource_trailing_star:
  assumes "CHR ''*'' \<notin> set base" and "rooted base"
  shows "globSource (base @ ''/*'') = CHR ''^'' # escapeRegex base @ ''/[^/]+$''"
proof (cases base)
  case Nil
  then show ?thesis
    using globSource_one_segment[of "''*''"]
    by (simp add: transformSegment_star startsWith_slash escapeRegex_Nil)
next
  case (Cons c b)
  with assms have "c = CHR ''/''" and "CHR ''*'' \<notin> set b" by (auto simp: rooted_def)
  then show ?thesis
    using globSource_last_segment[of b "''*''"] Cons
    by (simp add: transformSegment_star escapeRegex_slash)
qed

lemma globSource_prefix_stars:
  assumes "CHR ''*'' \<notin> set base" and "rooted base" and "p \<noteq> []" and "CHR ''/'' \<notin> set p"
  shows "globSource (base @ CHR ''/'' # p @ ''**'')
           = CHR ''^'' # escapeRegex (base @ CHR ''/'' # p) @ ''[^/]*/?$''"
proof (cases base)
  case Nil
  have "p @ ''**'' \<noteq> ''**''" using assms(3) by (auto simp: append_eq_Cons_conv)
  then show ?thesis
    using globSource_one_segment[of "p @ ''**''"] assms(3,4) Nil
    by (simp add: transformSegment_prefix_stars startsWith_slash escapeRegex_slash)
next
  case (Cons c b)
  with assms have "c = CHR ''/''" and "CHR ''*'' \<notin> set b" by (auto simp: rooted_def)
  then show ?thesis
    using globSource_last_segment[of b "p @ ''**''"] Cons assms(3,4)
    by (simp add: transformSegment_prefix_stars escapeRegex_slash escapeRegex_append)
qed

lemma globSource_trailing_stars:
  assumes "CHR ''*'' \<notin> set base" and "hd base = CHR ''/''" and "base \<noteq> []"
  shows "globSource (base @ ''/**'') = CHR ''^'' # escapeRegex base @ ''(?:/.*)?$''"
proof (cases base)
  case Nil
  with assms show ?thesis by simp
next
  case (Cons c b)
  with assms have "c = CHR ''/''" and "CHR ''*'' \<notin> set b" by auto
  moreover have "0 < length (splitSlash b)" by (simp add: splitSlash_not_Nil)
  ultimately show ?thesis
    using globSource_last_segment[of b "''**''"] Cons
    by (simp add: transformSegment_last_stars escapeRegex_slash)
qed


section \<open>The compiled expression of pattern families\<close>


lemma matchesPattern_glob:
  assumes "CHR ''*'' \<in> set p" and "globToRegex p = Inr re"
  shows "matchesPattern path (PString p) = Inr (path = p \<or> path \<in> lang re)"
  using assms by (auto simp: matchesPattern_def RegExp_test_lang)

lemma matchesPattern_legacy_glob:
  assumes "CHR ''*'' \<in> set p" and "globToRegex_legacy p = Inr re"
  shows "matchesPattern_legacy path (PString p) = Inr (path = p \<or> path \<in> lang re)"
  using assms by (auto simp: matchesPattern_legacy_def RegExp_test_lang)



lemma globToRegex_trailing_star:
  assumes "CHR ''*'' \<notin> set base" and "rooted base"
  shows "globToRegex (base @ ''/*'')
           = Inr (seqOf (lits base @ [Atom (CChar CHR ''/''), Seq (Atom CNotSlash) (Star (Atom CNotSlash))]))"
proof -
  have "tokenize ''/[^/]+$'' = Inr ([TChr CHR ''/'', TNotSlash, TPlus] @ [TEol])"
    by (simp add: consTok_Inr)
  from RegExp_new_literal[OF assms(1) this] show ?thesis
    by (simp add: globToRegex_def globSource_trailing_star[OF assms])
qed

lemma globToRegex_prefix_stars:
  assumes "CHR ''*'' \<notin> set base" and "rooted base" and "p \<noteq> []" and "CHR ''/'' \<notin> set p"
    and "CHR ''*'' \<notin> set p"
  shows "globToRegex (base @ CHR ''/'' # p @ ''**'')
           = Inr (seqOf (lits (base @ CHR ''/'' # p)
                    @ [Star (Atom CNotSlash), Alt (Atom (CChar CHR ''/'')) Empty]))"
proof -
  have t: "tokenize ''[^/]*/?$'' = Inr ([TNotSlash, TStar, TChr CHR ''/'', TQuest] @ [TEol])"
    by (simp add: consTok_Inr)
  have f: "CHR ''*'' \<notin> set (base @ CHR ''/'' # p)" using assms by simp
  from RegExp_new_literal[OF f t] show ?thesis
    by (simp add: globToRegex_def globSource_prefix_stars[OF assms(1-4)])
qed

lemma globToRegex_trailing_stars:
  assumes "CHR ''*'' \<notin> set base" and "hd base = CHR ''/''" and "base \<noteq> []"
  shows "globToRegex (base @ ''/**'')
           = Inr (seqOf (lits base
                    @ [Alt (Seq (Atom (CChar CHR ''/'')) (Seq (Star (Atom CDot)) Empty)) Empty]))"
proof -
  have t: "tokenize ''(?:/.*)?$'' = Inr ([TOpen, TChr CHR ''/'', TDot, TStar, TClose, TQuest] @ [TEol])"
    by (simp add: consTok_Inr)
  from RegExp_new_literal[OF assms(1) t] assms(3) show ?thesis
    by (simp add: globToRegex_def globSource_trailing_stars[OF assms])
qed


section \<open>What the tails match\<close>

lemma conc_Empty_right: "conc A {[]} = A"
  by (auto simp: conc_def)

lemma in_lang_Seq: "x \<in> lang (Seq r s) \<longleftrightarrow> (\<exists>u v. x = u @ v \<and> u \<in> lang r \<and> v \<in> lang s)"
  by (auto simp: conc_def)

lemma in_lang_Seq_Atom:
  "x \<in> lang (Seq (Atom k) r) \<longleftrightarrow> (\<exists>c w. x = c # w \<and> cmatch k c \<and> w \<in> lang r)"
proof
  assume "x \<in> lang (Seq (Atom k) r)"
  then show "\<exists>c w. x = c # w \<and> cmatch k c \<and> w \<in> lang r" by (auto simp: conc_def)
next
  assume "\<exists>c w. x = c # w \<and> cmatch k c \<and> w \<in> lang r"
  then obtain c w where "x = [c] @ w" "[c] \<in> lang (Atom k)" "w \<in> lang r" by auto
  then show "x \<in> lang (Seq (Atom k) r)" unfolding in_lang_Seq by blast
qed

lemma lang_Seq_Empty: "lang (Seq r Empty) = lang r"
  by (simp add: conc_Empty_right)

lemma in_lang_Opt: "x \<in> lang (Alt r Empty) \<longleftrightarrow> x \<in> lang r \<or> x = []"
  by auto

lemma in_lang_Star_Atom: "w \<in> lang (Star (Atom k)) \<longleftrightarrow> (\<forall>c \<in> set w. cmatch k c)"
  by (simp add: star_atoms)

lemma in_lang_Atom: "w \<in> lang (Atom k) \<longleftrightarrow> (\<exists>c. w = [c] \<and> cmatch k c)"
  by auto

lemma in_some_chars:
  "m \<in> lang (Seq (Atom k) (Star (Atom k))) \<longleftrightarrow> m \<noteq> [] \<and> (\<forall>c \<in> set m. cmatch k c)"
  by (cases m) (auto simp: in_lang_Seq_Atom in_lang_Star_Atom simp del: lang.simps)

lemma lang_one_segment:
  "w \<in> lang (seqOf [Atom (CChar CHR ''/''), Seq (Atom CNotSlash) (Star (Atom CNotSlash))])
     \<longleftrightarrow> (\<exists>seg. w = CHR ''/'' # seg \<and> seg \<noteq> [] \<and> CHR ''/'' \<notin> set seg)"
proof -
  have "w \<in> lang (seqOf [Atom (CChar CHR ''/''), Seq (Atom CNotSlash) (Star (Atom CNotSlash))])
      \<longleftrightarrow> (\<exists>c seg. w = c # seg \<and> cmatch (CChar CHR ''/'') c
            \<and> seg \<in> lang (Seq (Atom CNotSlash) (Star (Atom CNotSlash))))"
    by (simp only: seqOf.simps lang_Seq_Empty in_lang_Seq_Atom[of w "CChar CHR ''/''"])
  then show ?thesis by (simp only: in_some_chars) auto
qed

lemma lang_rest_of_segment:
  "w \<in> lang (seqOf [Star (Atom CNotSlash), Alt (Atom (CChar CHR ''/'')) Empty])
     \<longleftrightarrow> (\<exists>s. CHR ''/'' \<notin> set s \<and> (w = s \<or> w = s @ ''/''))"
proof -
  have "w \<in> lang (seqOf [Star (Atom CNotSlash), Alt (Atom (CChar CHR ''/'')) Empty])
      \<longleftrightarrow> (\<exists>u v. w = u @ v \<and> (\<forall>c \<in> set u. c \<noteq> CHR ''/'') \<and> (v = ''/'' \<or> v = []))"
    by (simp add: in_lang_Seq lang_Seq_Empty in_lang_Opt in_lang_Star_Atom in_lang_Atom
        del: lang.simps)
  also have "\<dots> \<longleftrightarrow> (\<exists>s. CHR ''/'' \<notin> set s \<and> (w = s \<or> w = s @ ''/''))"
    by (metis append_Nil2)
  finally show ?thesis .
qed

lemma lang_beneath:
  "w \<in> lang (seqOf [Alt (Seq (Atom (CChar CHR ''/'')) (Seq (Star (Atom CDot)) Empty)) Empty])
     \<longleftrightarrow> (w = [] \<or> (\<exists>t. w = CHR ''/'' # t \<and> CHR 0x0A \<notin> set t \<and> CHR 0x0D \<notin> set t))"
  by (auto simp: lang_Seq_Empty in_lang_Opt in_lang_Seq_Atom in_lang_Star_Atom simp del: lang.simps)


section \<open>What pattern families match\<close>


lemma trailing_star_general:
  assumes "CHR ''*'' \<notin> set base" and "rooted base"
  shows "matchesPattern path (PString (base @ ''/*''))
           = Inr (\<exists>seg. seg \<noteq> [] \<and> CHR ''/'' \<notin> set seg \<and> path = base @ CHR ''/'' # seg)"
proof -
  let ?re = "seqOf (lits base @ [Atom (CChar CHR ''/''), Seq (Atom CNotSlash) (Star (Atom CNotSlash))])"
  have "matchesPattern path (PString (base @ ''/*''))
      = Inr (path = base @ ''/*'' \<or> path \<in> lang ?re)"
    by (rule matchesPattern_glob) (simp_all add: globToRegex_trailing_star[OF assms])
  moreover have "path \<in> lang ?re
      \<longleftrightarrow> (\<exists>seg. seg \<noteq> [] \<and> CHR ''/'' \<notin> set seg \<and> path = base @ CHR ''/'' # seg)"
    by (simp only: in_lang_literal_prefix lang_one_segment) blast
  moreover have "path = base @ ''/*''
      \<Longrightarrow> (\<exists>seg. seg \<noteq> [] \<and> CHR ''/'' \<notin> set seg \<and> path = base @ CHR ''/'' # seg)"
    by (intro exI[of _ "''*''"]) simp
  ultimately show ?thesis by auto
qed

lemma prefix_stars_general:
  assumes "CHR ''*'' \<notin> set base" and "rooted base" and "p \<noteq> []" and "CHR ''/'' \<notin> set p"
    and "CHR ''*'' \<notin> set p"
  shows "matchesPattern path (PString (base @ CHR ''/'' # p @ ''**''))
           = Inr (\<exists>s. CHR ''/'' \<notin> set s
                  \<and> (path = base @ CHR ''/'' # p @ s \<or> path = base @ CHR ''/'' # p @ s @ ''/''))"
proof -
  let ?lit = "base @ CHR ''/'' # p"
  let ?re = "seqOf (lits ?lit @ [Star (Atom CNotSlash), Alt (Atom (CChar CHR ''/'')) Empty])"
  have "matchesPattern path (PString (base @ CHR ''/'' # p @ ''**''))
      = Inr (path = base @ CHR ''/'' # p @ ''**'' \<or> path \<in> lang ?re)"
    by (rule matchesPattern_glob) (simp_all add: globToRegex_prefix_stars[OF assms])
  moreover have "path \<in> lang ?re
      \<longleftrightarrow> (\<exists>s. CHR ''/'' \<notin> set s \<and> (path = ?lit @ s \<or> path = ?lit @ s @ ''/''))"
    by (simp only: in_lang_literal_prefix lang_rest_of_segment) blast
  moreover have "path = base @ CHR ''/'' # p @ ''**''
      \<Longrightarrow> (\<exists>s. CHR ''/'' \<notin> set s \<and> (path = ?lit @ s \<or> path = ?lit @ s @ ''/''))"
    by (intro exI[of _ "''**''"]) simp
  ultimately show ?thesis by auto
qed

lemma trailing_stars_general:
  assumes "CHR ''*'' \<notin> set base" and "hd base = CHR ''/''" and "base \<noteq> []"
  shows "matchesPattern path (PString (base @ ''/**''))
           = Inr (path = base
                  \<or> (\<exists>t. path = base @ CHR ''/'' # t \<and> CHR 0x0A \<notin> set t \<and> CHR 0x0D \<notin> set t))"
proof -
  let ?re = "seqOf (lits base
                    @ [Alt (Seq (Atom (CChar CHR ''/'')) (Seq (Star (Atom CDot)) Empty)) Empty])"
  have "matchesPattern path (PString (base @ ''/**''))
      = Inr (path = base @ ''/**'' \<or> path \<in> lang ?re)"
    by (rule matchesPattern_glob) (simp_all add: globToRegex_trailing_stars[OF assms])
  moreover have "path \<in> lang ?re
      \<longleftrightarrow> (path = base
                  \<or> (\<exists>t. path = base @ CHR ''/'' # t \<and> CHR 0x0A \<notin> set t \<and> CHR 0x0D \<notin> set t))"
    by (simp only: in_lang_literal_prefix lang_beneath) auto
  moreover have "path = base @ ''/**''
      \<Longrightarrow> (\<exists>t. path = base @ CHR ''/'' # t \<and> CHR 0x0A \<notin> set t \<and> CHR 0x0D \<notin> set t)"
    by (intro exI[of _ "''**''"]) simp
  ultimately show ?thesis by auto
qed



section \<open>The models pass the test suites\<close>

lemma segment_compiler_passes_its_tests:
  "list_all (\<lambda>(path, p, expected). matchesPattern path (PString p) = Inr expected)
     segmentCompilerRows"
  by code_simp

lemma legacy_compiler_passes_its_tests:
  "list_all (\<lambda>(path, p, expected). matchesPattern_legacy path (PString p) = Inr expected)
     legacyCompilerRows"
  by code_simp


section \<open>The claims\<close>

text \<open>
  C3. A module without a matcher, or with a matcher that has neither field, runs for
  every request; a matcher whose \<open>methods\<close> is the empty list, or whose \<open>patterns\<close> is
  the empty list, runs for none, whatever the other field holds. This holds of the build
  and of both TypeScript sources.
\<close>

theorem C3_absent_runs_empty_never:
  "shouldRunMiddleware req createMiddlewareModuleWithoutMatcher = Inr True
   \<and> shouldRunMiddleware req \<lparr>unstable_settings = Some \<lparr>matcher = None\<rparr>\<rparr> = Inr True
   \<and> shouldRunMiddleware req (createMiddlewareModule \<lparr>patterns = None, methods = None\<rparr>) = Inr True
   \<and> shouldRunMiddleware req (createMiddlewareModule \<lparr>patterns = ps, methods = Some []\<rparr>) = Inr False
   \<and> shouldRunMiddleware req (createMiddlewareModule \<lparr>patterns = Some [], methods = ms\<rparr>) = Inr False
   \<and> shouldRunMiddleware_ts req createMiddlewareModuleWithoutMatcher = Inr True
   \<and> shouldRunMiddleware_ts req \<lparr>unstable_settings = Some \<lparr>matcher = None\<rparr>\<rparr> = Inr True
   \<and> shouldRunMiddleware_ts req (createMiddlewareModule \<lparr>patterns = None, methods = None\<rparr>) = Inr True
   \<and> shouldRunMiddleware_ts req (createMiddlewareModule \<lparr>patterns = ps, methods = Some []\<rparr>) = Inr False
   \<and> shouldRunMiddleware_ts req (createMiddlewareModule \<lparr>patterns = Some [], methods = ms\<rparr>) = Inr False
   \<and> shouldRunMiddleware_legacy req createMiddlewareModuleWithoutMatcher = Inr True
   \<and> shouldRunMiddleware_legacy req \<lparr>unstable_settings = Some \<lparr>matcher = None\<rparr>\<rparr> = Inr True
   \<and> shouldRunMiddleware_legacy req (createMiddlewareModule \<lparr>patterns = None, methods = None\<rparr>) = Inr True
   \<and> shouldRunMiddleware_legacy req (createMiddlewareModule \<lparr>patterns = ps, methods = Some []\<rparr>) = Inr False
   \<and> shouldRunMiddleware_legacy req (createMiddlewareModule \<lparr>patterns = Some [], methods = ms\<rparr>) = Inr False"
  by (simp add: shouldRunMiddleware_def shouldRunMiddleware_ts_def shouldRunMiddleware_legacy_def
      matcherOf_def createMiddlewareModule_def createMiddlewareModuleWithoutMatcher_def
      split: option.split)

subsection \<open>Upper-casing\<close>

lemma toUpperCase_examples:
  "toUpperCase ''get'' = codeUnits ''GET''"
  "toUpperCase ''GET'' = codeUnits ''GET''"
  "toUpperCase ''PATCH'' = codeUnits ''PATCH''"
  "toUpperCase ''patch'' = codeUnits ''PATCH''"
  "toUpperCase [CHR 0xDF] = codeUnits ''SS''"
  "codeUnits ''patch'' \<noteq> codeUnits ''PATCH''"
  "codeUnits ''POST'' \<noteq> codeUnits ''GET''"
  by code_simp+

lemma sharp_s_method:
  "shouldRunMiddleware \<lparr>pathname = ''/'', requestMethod = ''SS''\<rparr>
     (createMiddlewareModule \<lparr>patterns = None, methods = Some [[CHR 0xDF]]\<rparr>) = Inr True"
  by code_simp

text \<open>
  C2, as stated, fails: the build upper-cases the configured methods only, so a request
  whose method is \<open>patch\<close> is refused by a matcher that allows \<open>PATCH\<close>, although both
  are equal once upper-cased; and the TypeScript sources upper-case nothing, so there
  \<open>get\<close> does not allow a \<open>GET\<close> request.
\<close>

theorem C2_counterexample:
  "toUpperCase ''patch'' \<in> set (map toUpperCase [''PATCH''])
   \<and> shouldRunMiddleware \<lparr>pathname = ''/api'', requestMethod = ''patch''\<rparr>
        (createMiddlewareModule \<lparr>patterns = None, methods = Some [''PATCH'']\<rparr>) = Inr False
   \<and> shouldRunMiddleware_ts \<lparr>pathname = ''/api'', requestMethod = ''GET''\<rparr>
        (createMiddlewareModule \<lparr>patterns = None, methods = Some [''get'']\<rparr>) = Inr False"
  by code_simp

text \<open>
  C2, amended. With a \<open>methods\<close> field present, the build upper-cases each configured
  method and compares the method of the request as it is: the request passes the method
  clause exactly when its method is among the upper-cased configured methods, and then
  the call answers as it does for the same matcher without the \<open>methods\<close> field (the
  pattern clause decides). So the spelling of the configured methods matters only up to
  upper-casing, and \<open>get\<close> in the configuration lets a \<open>GET\<close> request through. The
  TypeScript sources compare with the configured methods as they are written.
\<close>

theorem C2_configured_methods_uppercased:
  "shouldRunMiddleware req (createMiddlewareModule \<lparr>patterns = ps, methods = Some ms\<rparr>)
     = (if codeUnits (requestMethod req) \<in> set (map toUpperCase ms)
        then shouldRunMiddleware req (createMiddlewareModule \<lparr>patterns = ps, methods = None\<rparr>)
        else Inr False)
   \<and> (map toUpperCase ms = map toUpperCase ms' \<longrightarrow>
        shouldRunMiddleware req (createMiddlewareModule \<lparr>patterns = ps, methods = Some ms\<rparr>)
          = shouldRunMiddleware req (createMiddlewareModule \<lparr>patterns = ps, methods = Some ms'\<rparr>))
   \<and> shouldRunMiddleware_ts req (createMiddlewareModule \<lparr>patterns = ps, methods = Some ms\<rparr>)
     = (if requestMethod req \<in> set ms
        then shouldRunMiddleware_ts req (createMiddlewareModule \<lparr>patterns = ps, methods = None\<rparr>)
        else Inr False)
   \<and> shouldRunMiddleware_legacy req (createMiddlewareModule \<lparr>patterns = ps, methods = Some ms\<rparr>)
     = (if requestMethod req \<in> set ms
        then shouldRunMiddleware_legacy req
               (createMiddlewareModule \<lparr>patterns = ps, methods = None\<rparr>)
        else Inr False)"
proof -
  have build: "shouldRunMiddleware req (createMiddlewareModule \<lparr>patterns = ps, methods = Some xs\<rparr>)
     = (if codeUnits (requestMethod req) \<in> set (map toUpperCase xs)
        then shouldRunMiddleware req (createMiddlewareModule \<lparr>patterns = ps, methods = None\<rparr>)
        else Inr False)" for xs
    by (auto simp: shouldRunMiddleware_def matcherOf_def createMiddlewareModule_def
        split: option.split)
  have ts: "shouldRunMiddleware_ts req (createMiddlewareModule \<lparr>patterns = ps, methods = Some ms\<rparr>)
     = (if requestMethod req \<in> set ms
        then shouldRunMiddleware_ts req (createMiddlewareModule \<lparr>patterns = ps, methods = None\<rparr>)
        else Inr False)"
    by (auto simp: shouldRunMiddleware_ts_def matcherOf_def createMiddlewareModule_def
        split: option.split)
  have legacy: "shouldRunMiddleware_legacy req (createMiddlewareModule \<lparr>patterns = ps, methods = Some ms\<rparr>)
     = (if requestMethod req \<in> set ms
        then shouldRunMiddleware_legacy req
               (createMiddlewareModule \<lparr>patterns = ps, methods = None\<rparr>)
        else Inr False)"
    by (auto simp: shouldRunMiddleware_legacy_def matcherOf_def createMiddlewareModule_def
        split: option.split)
  have same: "shouldRunMiddleware req (createMiddlewareModule \<lparr>patterns = ps, methods = Some ms\<rparr>)
          = shouldRunMiddleware req (createMiddlewareModule \<lparr>patterns = ps, methods = Some ms'\<rparr>)"
    if "map toUpperCase ms = map toUpperCase ms'"
    using that by (simp only: build)
  from build[of ms] ts legacy same show ?thesis by blast
qed

theorem C2_witness:
  "map toUpperCase [''get''] = map toUpperCase [''GET'']
   \<and> shouldRunMiddleware \<lparr>pathname = ''/api'', requestMethod = ''GET''\<rparr>
     (createMiddlewareModule \<lparr>patterns = Some [PString ''/api''], methods = Some [''get'']\<rparr>)
     = shouldRunMiddleware \<lparr>pathname = ''/api'', requestMethod = ''GET''\<rparr>
     (createMiddlewareModule \<lparr>patterns = Some [PString ''/api''], methods = Some [''GET'']\<rparr>)
   \<and> shouldRunMiddleware \<lparr>pathname = ''/api'', requestMethod = ''GET''\<rparr>
     (createMiddlewareModule \<lparr>patterns = Some [PString ''/api''], methods = Some [''get'']\<rparr>)
     = shouldRunMiddleware \<lparr>pathname = ''/api'', requestMethod = ''GET''\<rparr>
     (createMiddlewareModule \<lparr>patterns = Some [PString ''/api''], methods = None\<rparr>)
   \<and> shouldRunMiddleware \<lparr>pathname = ''/api'', requestMethod = ''POST''\<rparr>
     (createMiddlewareModule \<lparr>patterns = None, methods = Some [''get'']\<rparr>) = Inr False"
proof -
  let ?get = "\<lparr>pathname = ''/api'', requestMethod = ''GET''\<rparr>"
  let ?post = "\<lparr>pathname = ''/api'', requestMethod = ''POST''\<rparr>"
  have up: "map toUpperCase [''get''] = map toUpperCase [''GET'']"
    by (simp add: toUpperCase_examples)
  note get = C2_configured_methods_uppercased
      [of ?get "Some [PString ''/api'']" "[''get'']" "[''GET'']"]
  note post = C2_configured_methods_uppercased [of ?post None "[''get'']" "[''get'']"]
  have same: "shouldRunMiddleware ?get
       (createMiddlewareModule \<lparr>patterns = Some [PString ''/api''], methods = Some [''get'']\<rparr>)
     = shouldRunMiddleware ?get
       (createMiddlewareModule \<lparr>patterns = Some [PString ''/api''], methods = Some [''GET'']\<rparr>)"
    using get up by blast
  have passes: "shouldRunMiddleware ?get
       (createMiddlewareModule \<lparr>patterns = Some [PString ''/api''], methods = Some [''get'']\<rparr>)
     = shouldRunMiddleware ?get
       (createMiddlewareModule \<lparr>patterns = Some [PString ''/api''], methods = None\<rparr>)"
    using get by (simp add: toUpperCase_examples)
  have refused: "shouldRunMiddleware ?post
       (createMiddlewareModule \<lparr>patterns = None, methods = Some [''get'']\<rparr>) = Inr False"
    using post by (simp add: toUpperCase_examples)
  from up same passes refused show ?thesis by blast
qed

subsection \<open>The older compiler on a final \<^verbatim>\<open>/*\<close>\<close>

lemmas eval_defs = matchesPattern_def matchesPattern_legacy_def globToRegex_def globToRegex_legacy_def
  globSource_def globSource_legacy_def transformSegment_def endsWith_def startsWith_def
  escapeRegex_def escapedChars_def RegExp_new_def consTok_def syntaxChars_def Let_def

lemma replaceAll_skip:
  "lit \<noteq> [] \<Longrightarrow> hd lit \<notin> set e \<Longrightarrow> replaceAll lit rep (e @ t) = e @ replaceAll lit rep t"
proof (induction e)
  case Nil
  show ?case by simp
next
  case (Cons c e)
  have "take (length lit) (c # e @ t) \<noteq> lit"
  proof
    assume "take (length lit) (c # e @ t) = lit"
    then have "hd lit = c" using Cons.prems(1) by (cases lit) auto
    with Cons.prems(2) show False by simp
  qed
  with Cons show ?case by simp
qed

lemma escapeRegex_chars: "set (escapeRegex s) \<subseteq> insert bslash (set s)"
  by (induction s) (auto simp: escapeRegex_def split: if_splits)

lemma legacy_escape:
  "concat (map (\<lambda>c. if c \<in> set (''.+?^${}()|[]'' @ [bslash]) then [bslash, c] else [c]) s)
     = escapeRegex s"
proof -
  have "set (''.+?^${}()|[]'' @ [bslash]) = set escapedChars"
    by (auto simp: escapedChars_def)
  then show ?thesis by (simp only: escapeRegex_def)
qed

lemma globSource_legacy_trailing_star:
  assumes "CHR ''*'' \<notin> set base" and "CHR ''_'' \<notin> set base"
  shows "globSource_legacy (base @ ''/*'') = CHR ''^'' # escapeRegex base @ ''(?:/[^/]*)?$''"
proof -
  let ?e = "escapeRegex base"
  have star: "CHR ''*'' \<notin> set ?e" and under: "CHR ''_'' \<notin> set ?e"
    using assms escapeRegex_chars[of base] by auto
  have "replaceAll ''**'' ''___DOUBLE_STAR___'' (?e @ ''/*'') = ?e @ ''/*''"
    using star by (simp add: replaceAll_skip)
  moreover have "replaceAll ''*'' ''[^/]*'' (?e @ ''/*'') = ?e @ ''/[^/]*''"
    using star by (simp add: replaceAll_skip)
  moreover have "replaceAll ''___DOUBLE_STAR___'' ''.*'' (?e @ ''/[^/]*'') = ?e @ ''/[^/]*''"
    using under by (simp add: replaceAll_skip)
  ultimately have
    "replaceAll ''___DOUBLE_STAR___'' ''.*''
       (replaceAll ''*'' ''[^/]*''
         (replaceAll ''**'' ''___DOUBLE_STAR___'' (escapeRegex (base @ ''/*''))))
      = ?e @ ''/[^/]*''"
    by (simp add: escapeRegex_append) (simp add: escapeRegex_def escapedChars_def)
  then show ?thesis
    unfolding globSource_legacy_def legacy_escape Let_def
    by (simp add: endsWith_append)
qed

lemma globToRegex_legacy_trailing_star:
  assumes "CHR ''*'' \<notin> set base" and "CHR ''_'' \<notin> set base"
  shows "globToRegex_legacy (base @ ''/*'')
           = Inr (seqOf (lits base
                    @ [Alt (Seq (Atom (CChar CHR ''/'')) (Seq (Star (Atom CNotSlash)) Empty)) Empty]))"
proof -
  have t: "tokenize ''(?:/[^/]*)?$''
      = Inr ([TOpen, TChr CHR ''/'', TNotSlash, TStar, TClose, TQuest] @ [TEol])"
    by (simp add: consTok_Inr)
  from RegExp_new_literal[OF assms(1) t] show ?thesis
    by (simp add: globToRegex_legacy_def globSource_legacy_trailing_star[OF assms])
qed

lemma lang_optional_segment:
  "w \<in> lang (seqOf [Alt (Seq (Atom (CChar CHR ''/'')) (Seq (Star (Atom CNotSlash)) Empty)) Empty])
     \<longleftrightarrow> (w = [] \<or> (\<exists>seg. w = CHR ''/'' # seg \<and> CHR ''/'' \<notin> set seg))"
  by (auto simp: lang_Seq_Empty in_lang_Opt in_lang_Seq_Atom in_lang_Star_Atom simp del: lang.simps)

lemma legacy_trailing_star_general:
  assumes "CHR ''*'' \<notin> set base" and "CHR ''_'' \<notin> set base"
  shows "matchesPattern_legacy path (PString (base @ ''/*''))
           = Inr (path = base \<or> (\<exists>seg. CHR ''/'' \<notin> set seg \<and> path = base @ CHR ''/'' # seg))"
proof -
  let ?re = "seqOf (lits base
                    @ [Alt (Seq (Atom (CChar CHR ''/'')) (Seq (Star (Atom CNotSlash)) Empty)) Empty])"
  have "matchesPattern_legacy path (PString (base @ ''/*''))
      = Inr (path = base @ ''/*'' \<or> path \<in> lang ?re)"
    by (rule matchesPattern_legacy_glob) (simp_all add: globToRegex_legacy_trailing_star[OF assms])
  moreover have "path \<in> lang ?re
      \<longleftrightarrow> (path = base \<or> (\<exists>seg. CHR ''/'' \<notin> set seg \<and> path = base @ CHR ''/'' # seg))"
    by (simp only: in_lang_literal_prefix lang_optional_segment) auto
  moreover have "path = base @ ''/*''
      \<Longrightarrow> (\<exists>seg. CHR ''/'' \<notin> set seg \<and> path = base @ CHR ''/'' # seg)"
    by (intro exI[of _ "''*''"]) simp
  ultimately show ?thesis by auto
qed

text \<open>
  C1, as stated, fails on the segment compiler (the newer TypeScript source and the
  build): \<^verbatim>\<open>/api/*\<close> does not match \<^verbatim>\<open>/api\<close>.
\<close>

theorem C1_counterexample:
  "matchesPattern ''/api'' (PString ''/api/*'') = Inr False"
  by code_simp

text \<open>
  C1, amended. For a pattern that is wildcard-free text followed by a final \<^verbatim>\<open>/*\<close>, the
  segment compiler matches exactly the paths that add one more non-empty segment to
  the text before the \<^verbatim>\<open>/*\<close>, and so neither that text alone nor anything deeper. Only the
  older compiler of \<^verbatim>\<open>part_001\<close> makes the final \<^verbatim>\<open>/*\<close> optional: when the text has no
  underscore (its placeholder is made of underscores), it matches the text before the
  \<^verbatim>\<open>/*\<close> alone, and that text plus a slash and at most one segment.
\<close>

theorem C1_trailing_star_segment:
  assumes "CHR ''*'' \<notin> set base" and "rooted base"
  shows "matchesPattern path (PString (base @ ''/*''))
           = Inr (\<exists>seg. seg \<noteq> [] \<and> CHR ''/'' \<notin> set seg \<and> path = base @ CHR ''/'' # seg)
         \<and> (CHR ''_'' \<notin> set base \<longrightarrow>
              matchesPattern_legacy path (PString (base @ ''/*''))
                = Inr (path = base
                       \<or> (\<exists>seg. CHR ''/'' \<notin> set seg \<and> path = base @ CHR ''/'' # seg)))"
  using trailing_star_general[OF assms] legacy_trailing_star_general[OF assms(1)]
  by simp

theorem C1_witness:
  "CHR ''*'' \<notin> set ''/api'' \<and> rooted ''/api'' \<and> CHR ''_'' \<notin> set ''/api''
   \<and> CHR ''*'' \<notin> set ''/my_api'' \<and> rooted ''/my_api''
   \<and> matchesPattern ''/api/users'' (PString ''/api/*'') = Inr True
   \<and> matchesPattern ''/api'' (PString ''/api/*'') = Inr False
   \<and> matchesPattern ''/api/users/1'' (PString ''/api/*'') = Inr False
   \<and> matchesPattern ''/my_api/x'' (PString ''/my_api/*'') = Inr True
   \<and> matchesPattern ''/my_api'' (PString ''/my_api/*'') = Inr False
   \<and> matchesPattern_legacy ''/api'' (PString ''/api/*'') = Inr True
   \<and> matchesPattern_legacy ''/api/users'' (PString ''/api/*'') = Inr True
   \<and> matchesPattern_legacy ''/api/users/1'' (PString ''/api/*'') = Inr False"
proof -
  have h: "CHR ''*'' \<notin> set ''/api''" "rooted ''/api''"
    and u: "CHR ''_'' \<notin> set ''/api''"
    and h': "CHR ''*'' \<notin> set ''/my_api''" "rooted ''/my_api''"
    by (simp_all add: rooted_def)
  have one: "\<exists>seg. seg \<noteq> [] \<and> CHR ''/'' \<notin> set seg \<and> ''/api/users'' = ''/api'' @ CHR ''/'' # seg"
    by (rule exI[of _ "''users''"]) simp
  have one': "\<exists>seg. CHR ''/'' \<notin> set seg \<and> ''/api/users'' = ''/api'' @ CHR ''/'' # seg"
    by (rule exI[of _ "''users''"]) simp
  have none: "\<not> (\<exists>seg. CHR ''/'' \<notin> set seg \<and> ''/api'' = ''/api'' @ CHR ''/'' # seg)"
    by simp
  have deep: "\<not> (\<exists>seg. CHR ''/'' \<notin> set seg \<and> ''/api/users/1'' = ''/api'' @ CHR ''/'' # seg)"
    by auto
  have my: "\<exists>seg. seg \<noteq> [] \<and> CHR ''/'' \<notin> set seg \<and> ''/my_api/x'' = ''/my_api'' @ CHR ''/'' # seg"
    by (rule exI[of _ "''x''"]) simp
  have my': "\<not> (\<exists>seg. seg \<noteq> [] \<and> CHR ''/'' \<notin> set seg \<and> ''/my_api'' = ''/my_api'' @ CHR ''/'' # seg)"
    by simp
  show ?thesis
    using C1_trailing_star_segment[OF h, of "''/api/users''"]
      C1_trailing_star_segment[OF h, of "''/api''"]
      C1_trailing_star_segment[OF h, of "''/api/users/1''"]
      C1_trailing_star_segment[OF h', of "''/my_api/x''"]
      C1_trailing_star_segment[OF h', of "''/my_api''"]
      h u h' one one' none deep my my'
    by auto
qed

subsection \<open>The pattern \<^verbatim>\<open>/**\<close>\<close>

lemma globToRegex_everything:
  "globToRegex ''/**'' = Inr (seqOf [Atom (CChar CHR ''/''), Star (Atom CDot)])"
  "globToRegex_legacy ''/**'' = Inr (seqOf [Atom (CChar CHR ''/''), Star (Atom CDot)])"
  by (simp_all add: eval_defs)

lemma lang_everything:
  "w \<in> lang (seqOf [Atom (CChar CHR ''/''), Star (Atom CDot)]) \<longleftrightarrow> isPathname w"
proof -
  have "w \<in> lang (seqOf [Atom (CChar CHR ''/''), Star (Atom CDot)])
      \<longleftrightarrow> (\<exists>t. w = CHR ''/'' # t \<and> CHR 0x0A \<notin> set t \<and> CHR 0x0D \<notin> set t)"
    by (auto simp: lang_Seq_Empty in_lang_Seq_Atom in_lang_Star_Atom simp del: lang.simps)
  also have "\<dots> \<longleftrightarrow> isPathname w"
    by (cases w) (auto simp: isPathname_def startsWith_def)
  finally show ?thesis .
qed

text \<open>
  C4. The pattern \<^verbatim>\<open>/**\<close> matches every pathname, the root \<^verbatim>\<open>/\<close> and nested paths
  alike, in the segment compiler and in the older compiler. (A pathname starts with a
  slash and has no line terminator, as \<^verbatim>\<open>url.pathname\<close> always does.)
\<close>

theorem C4_double_star_matches_every_path:
  assumes "isPathname path"
  shows "matchesPattern path (PString ''/**'') = Inr True
         \<and> matchesPattern_legacy path (PString ''/**'') = Inr True"
proof -
  have "CHR ''*'' \<in> set ''/**''" by simp
  then have "matchesPattern path (PString ''/**'')
        = Inr (path = ''/**'' \<or> path \<in> lang (seqOf [Atom (CChar CHR ''/''), Star (Atom CDot)]))"
    and "matchesPattern_legacy path (PString ''/**'')
        = Inr (path = ''/**'' \<or> path \<in> lang (seqOf [Atom (CChar CHR ''/''), Star (Atom CDot)]))"
    by (rule matchesPattern_glob[OF _ globToRegex_everything(1)],
        rule matchesPattern_legacy_glob[OF _ globToRegex_everything(2)])
  with assms show ?thesis by (simp only: lang_everything) simp
qed

theorem C4_witness:
  "isPathname ''/'' \<and> isPathname ''/api/x/y''
   \<and> matchesPattern ''/'' (PString ''/**'') = Inr True
   \<and> matchesPattern ''/api/x/y'' (PString ''/**'') = Inr True
   \<and> matchesPattern_legacy ''/'' (PString ''/**'') = Inr True
   \<and> matchesPattern_legacy ''/api/x/y'' (PString ''/**'') = Inr True"
proof -
  have a: "isPathname ''/''" and b: "isPathname ''/api/x/y''"
    by (simp_all add: isPathname_def startsWith_def)
  show ?thesis
    using C4_double_star_matches_every_path[OF a] C4_double_star_matches_every_path[OF b] a b
    by simp
qed






text \<open>
  C7 fails on the segment compiler: in a segment with a star and other text every star
  becomes \<^verbatim>\<open>[^/]*/?\<close>, which lets one slash through, so \<^verbatim>\<open>/a*b\<close> matches \<^verbatim>\<open>/a/b\<close>
  across a segment boundary. The older compiler, whose comment says that a star matches
  any characters except the slash, does not.
\<close>

theorem C7_star_crosses_slash:
  "matchesPattern ''/a/b'' (PString ''/a*b'') = Inr True
   \<and> globSource ''/a*b'' = ''^/a[^/]*/?b$''
   \<and> matchesPattern_legacy ''/a/b'' (PString ''/a*b'') = Inr False
   \<and> globSource_legacy ''/a*b'' = ''^/a[^/]*b$''"
  by code_simp

subsection \<open>The first character of a pattern\<close>

lemma globSource_first_char: "globSource (c # t) = globSource (CHR ''/'' # t)"
proof (cases "t = ''**''")
  case True
  then show ?thesis
    by (cases "c = CHR ''/''") (simp_all add: globSource_def transformSegment_def startsWith_def Let_def)
next
  case False
  then show ?thesis by (simp add: globSource_def)
qed

lemma globToRegex_first_char: "globToRegex (c # t) = globToRegex (CHR ''/'' # t)"
  by (simp only: globToRegex_def globSource_first_char[of c t])

lemma globToRegex_literal:
  assumes "CHR ''*'' \<notin> set t"
  shows "globToRegex (CHR ''/'' # t) = Inr (seqOf (lits (CHR ''/'' # t)))"
proof -
  have ne: "CHR ''/'' # t \<noteq> ''/**''" using assms by auto
  have src: "globSource (CHR ''/'' # t) = CHR ''^'' # escapeRegex (CHR ''/'' # t) @ ''$''"
    using ne assms
    by (simp add: globSource_def transform_literal_text startsWith_slash escapeRegex_slash Let_def
        del: splitSlash.simps)
  have f: "CHR ''*'' \<notin> set (CHR ''/'' # t)" using assms by simp
  have t: "tokenize ''$'' = Inr ([] @ [TEol])" by (simp add: consTok_Inr)
  from RegExp_new_literal[OF f t] show ?thesis
    by (simp add: globToRegex_def src)
qed

text \<open>
  C10, as stated, fails: the compiled expression is the same, but the exact comparison
  that comes before compilation is made with the pattern as written. The pattern
  \<^verbatim>\<open>x+a*\<close> is compiled like \<^verbatim>\<open>/+a*\<close>, whose expression does not match the path \<^verbatim>\<open>/+a*\<close>;
  the pattern \<^verbatim>\<open>/+a*\<close> itself matches that path, being equal to it.
\<close>

theorem C10_counterexample:
  "CHR ''*'' \<in> set ''x+a*'' \<and> ''x+a*'' \<noteq> ''/+a*'' \<and> ''x+a*'' \<noteq> ''/**''
   \<and> \<not> startsWith ''x+a*'' ''/''
   \<and> matchesPattern ''/+a*'' (PString ''x+a*'') = Inr False
   \<and> matchesPattern ''/+a*'' (PString (CHR ''/'' # tl ''x+a*'')) = Inr True"
  by code_simp

text \<open>
  C10, amended. Glob compilation drops the first character of the pattern, whatever
  it is, and anchors the result under a leading slash: a pattern and the pattern with
  its first character replaced by a slash compile to the same expression. So for every
  pattern \<open>p\<close> with a star and every path that is equal neither to \<open>p\<close> nor to the slash
  followed by the rest of \<open>p\<close>, \<open>p\<close> is matched as that other pattern is;
  \<^verbatim>\<open>api/*\<close> is matched as \<^verbatim>\<open>/pi/*\<close> is.
\<close>

theorem C10_first_character_dropped:
  assumes "CHR ''*'' \<in> set p" and "path \<noteq> p" and "path \<noteq> CHR ''/'' # tl p"
  shows "globToRegex p = globToRegex (CHR ''/'' # tl p)
         \<and> matchesPattern path (PString p) = matchesPattern path (PString (CHR ''/'' # tl p))"
proof -
  from assms(1) obtain c t where p: "p = c # t" by (cases p) auto
  have re: "globToRegex p = globToRegex (CHR ''/'' # t)"
    unfolding p by (rule globToRegex_first_char)
  have "matchesPattern path (PString p) = matchesPattern path (PString (CHR ''/'' # t))"
  proof (cases "CHR ''*'' \<in> set t")
    case True
    with assms re p show ?thesis by (simp add: matchesPattern_def)
  next
    case False
    then have "globToRegex p = Inr (seqOf (lits (CHR ''/'' # t)))"
      using re globToRegex_literal by simp
    with assms(1) have "matchesPattern path (PString p)
        = Inr (path = p \<or> path \<in> lang (seqOf (lits (CHR ''/'' # t))))"
      by (rule matchesPattern_glob)
    with assms(2,3) p have "matchesPattern path (PString p) = Inr False"
      by (simp only: lang_seqOf_literal) simp
    moreover have "matchesPattern path (PString (CHR ''/'' # t)) = Inr False"
      using False assms(3) p by (auto simp: matchesPattern_def)
    ultimately show ?thesis by simp
  qed
  with re p show ?thesis by simp
qed

theorem C10_witness:
  "CHR ''*'' \<in> set ''api/*'' \<and> ''/pi/x'' \<noteq> ''api/*'' \<and> ''/pi/x'' \<noteq> CHR ''/'' # tl ''api/*''
   \<and> globToRegex ''api/*'' = globToRegex ''/pi/*''
   \<and> matchesPattern ''/pi/x'' (PString ''api/*'') = matchesPattern ''/pi/x'' (PString ''/pi/*'')
   \<and> matchesPattern ''/pi/x'' (PString ''/pi/*'') = Inr True"
proof -
  have h: "CHR ''*'' \<in> set ''api/*''" "''/pi/x'' \<noteq> ''api/*''" "''/pi/x'' \<noteq> CHR ''/'' # tl ''api/*''"
    by simp_all
  have v: "matchesPattern ''/pi/x'' (PString ''/pi/*'') = Inr True" by code_simp
  show ?thesis
    using C10_first_character_dropped[OF h] h v by simp
qed

subsection \<open>Patterns that end in wildcard-free text\<close>
















subsection \<open>Extra slashes at the end of the path\<close>

lemma escapeRegex_plain: "set p \<inter> set escapedChars = {} \<Longrightarrow> escapeRegex p = p"
  by (induction p) (auto simp: escapeRegex_def)

lemma transformSegment_prefix_star:
  assumes "p \<noteq> []" and "CHR ''*'' \<notin> set p" and "set p \<inter> set escapedChars = {}"
  shows "transformSegment n i (p @ ''*'') = transformSegment n i (p @ ''**'')"
proof -
  have ne: "p @ ''*'' \<noteq> ''**''" "p @ ''*'' \<noteq> ''*''"
    using assms(1,2) by (auto simp: append_eq_Cons_conv)
  have "\<not> endsWith (p @ ''*'') ''**''"
  proof
    assume "endsWith (p @ ''*'') ''**''"
    then have "drop (length p - 1) (p @ ''*'') = ''**''" by (simp add: endsWith_def)
    then have "drop (length p - 1) p @ ''*'' = ''**''" using assms(1) by simp
    then have "drop (length p - 1) p = ''*''" by simp
    then have "CHR ''*'' \<in> set (drop (length p - 1) p)" by simp
    then have "CHR ''*'' \<in> set p" by (rule in_set_dropD)
    with assms(2) show False by simp
  qed
  moreover have "replaceAll ''*'' ''[^/]*/?'' (p @ ''*'') = p @ ''[^/]*/?''"
    using assms(2) by (simp add: replaceAll_skip)
  ultimately show ?thesis
    using ne assms(1,3)
    by (simp add: transformSegment_prefix_stars escapeRegex_plain)
       (simp add: transformSegment_def Let_def)
qed

lemma globToRegex_prefix_star:
  assumes "CHR ''*'' \<notin> set base" and "rooted base" and "p \<noteq> []" and "CHR ''/'' \<notin> set p"
    and "CHR ''*'' \<notin> set p" and "set p \<inter> set escapedChars = {}"
  shows "globToRegex (base @ CHR ''/'' # p @ ''*'') = globToRegex (base @ CHR ''/'' # p @ ''**'')"
proof -
  note same = transformSegment_prefix_star[OF assms(3,5,6)]
  have "globSource (base @ CHR ''/'' # p @ ''*'') = globSource (base @ CHR ''/'' # p @ ''**'')"
  proof (cases base)
    case Nil
    have "p @ ''*'' \<noteq> ''**''" "p @ ''**'' \<noteq> ''**''"
      using assms(3,5) by (auto simp: append_eq_Cons_conv)
    then show ?thesis
      using globSource_one_segment[of "p @ ''*''"] globSource_one_segment[of "p @ ''**''"]
        assms(4) Nil same
      by simp
  next
    case (Cons c b)
    with assms have "c = CHR ''/''" and "CHR ''*'' \<notin> set b" by (auto simp: rooted_def)
    then show ?thesis
      using globSource_last_segment[of b "p @ ''*''"] globSource_last_segment[of b "p @ ''**''"]
        assms(4) Cons same
      by simp
  qed
  then show ?thesis by (simp only: globToRegex_def)
qed

lemma prefix_star_general:
  assumes "CHR ''*'' \<notin> set base" and "rooted base" and "p \<noteq> []" and "CHR ''/'' \<notin> set p"
    and "CHR ''*'' \<notin> set p" and "set p \<inter> set escapedChars = {}"
  shows "matchesPattern path (PString (base @ CHR ''/'' # p @ ''*''))
           = Inr (\<exists>s. CHR ''/'' \<notin> set s
                  \<and> (path = base @ CHR ''/'' # p @ s \<or> path = base @ CHR ''/'' # p @ s @ ''/''))"
proof -
  let ?lit = "base @ CHR ''/'' # p"
  let ?re = "seqOf (lits ?lit @ [Star (Atom CNotSlash), Alt (Atom (CChar CHR ''/'')) Empty])"
  have "globToRegex (?lit @ ''*'') = Inr ?re"
    using globToRegex_prefix_star[OF assms] globToRegex_prefix_stars[OF assms(1-5)] by simp
  then have "matchesPattern path (PString (?lit @ ''*'')) = Inr (path = ?lit @ ''*'' \<or> path \<in> lang ?re)"
    by (intro matchesPattern_glob) simp_all
  moreover have "path \<in> lang ?re
      \<longleftrightarrow> (\<exists>s. CHR ''/'' \<notin> set s \<and> (path = ?lit @ s \<or> path = ?lit @ s @ ''/''))"
    by (simp only: in_lang_literal_prefix lang_rest_of_segment) blast
  moreover have "path = ?lit @ ''*''
      \<Longrightarrow> (\<exists>s. CHR ''/'' \<notin> set s \<and> (path = ?lit @ s \<or> path = ?lit @ s @ ''/''))"
    by (intro exI[of _ "''*''"]) simp
  ultimately show ?thesis by auto
qed

lemma first_occurrence:
  "c \<notin> set xs \<Longrightarrow> c \<notin> set xs' \<Longrightarrow> xs @ c # ys = xs' @ c # ys' \<Longrightarrow> xs = xs' \<and> ys = ys'"
proof (induction xs arbitrary: xs')
  case Nil
  then show ?case by (cases xs') auto
next
  case (Cons x xs)
  then show ?case by (cases xs') auto
qed

lemma one_slash_then_nothing:
  assumes "CHR ''/'' \<notin> set s"
  shows "\<exists>s'. CHR ''/'' \<notin> set s' \<and> (b @ s @ ''/'' = b @ s' \<or> b @ s @ ''/'' = b @ s' @ ''/'')"
    and "t \<noteq> [] \<Longrightarrow>
         \<not> (\<exists>s'. CHR ''/'' \<notin> set s'
               \<and> (b @ s @ CHR ''/'' # t = b @ s' \<or> b @ s @ CHR ''/'' # t = b @ s' @ ''/''))"
proof -
  show "\<exists>s'. CHR ''/'' \<notin> set s' \<and> (b @ s @ ''/'' = b @ s' \<or> b @ s @ ''/'' = b @ s' @ ''/'')"
    using assms by (intro exI[of _ s]) simp
next
  assume t: "t \<noteq> []"
  show "\<not> (\<exists>s'. CHR ''/'' \<notin> set s'
               \<and> (b @ s @ CHR ''/'' # t = b @ s' \<or> b @ s @ CHR ''/'' # t = b @ s' @ ''/''))"
  proof
    assume "\<exists>s'. CHR ''/'' \<notin> set s'
               \<and> (b @ s @ CHR ''/'' # t = b @ s' \<or> b @ s @ CHR ''/'' # t = b @ s' @ ''/'')"
    then obtain s' where s': "CHR ''/'' \<notin> set s'"
      and "s @ CHR ''/'' # t = s' \<or> s @ CHR ''/'' # t = s' @ CHR ''/'' # []" by auto
    then consider "s' = s @ CHR ''/'' # t" | "s @ CHR ''/'' # t = s' @ CHR ''/'' # []" by auto
    then show False
    proof cases
      case 1
      with s' show False by simp
    next
      case 2
      with assms s' have "s = s' \<and> t = []" by (rule first_occurrence)
      then have "t = []" ..
      with t show False by simp
    qed
  qed
qed

text \<open>
  C9, as stated, fails for a final \<^verbatim>\<open>**\<close> segment: it accepts more than one extra slash,
  as it accepts everything beneath the text before it.
\<close>

theorem C9_counterexample:
  "matchesPattern ''/api/'' (PString ''/api/**'') = Inr True
   \<and> matchesPattern ''/api//'' (PString ''/api/**'') = Inr True
   \<and> matchesPattern ''/api///'' (PString ''/api/**'') = Inr True"
  by code_simp

text \<open>
  C9, amended. After wildcard-free segments, a last segment of wildcard-free text
  followed by \<^verbatim>\<open>**\<close>, or of text without characters special to regular expressions
  followed by \<^verbatim>\<open>*\<close>, accepts exactly one extra slash at the end of the path: whatever
  continues the text within the segment, one slash after it is matched, and nothing may
  follow that slash. A final \<^verbatim>\<open>**\<close> segment after wildcard-free text accepts any number
  of extra slashes. So \<^verbatim>\<open>/api/\<close> is matched by \<^verbatim>\<open>/api/**\<close>, by \<^verbatim>\<open>/api**\<close> and by \<^verbatim>\<open>/api*\<close>,
  and \<^verbatim>\<open>/api*\<close> does not match \<^verbatim>\<open>/api/x\<close>.
\<close>

theorem C9_extra_trailing_slash:
  assumes "CHR ''*'' \<notin> set base" and "rooted base" and "p \<noteq> []" and "CHR ''/'' \<notin> set p"
    and "CHR ''*'' \<notin> set p" and "CHR ''/'' \<notin> set s"
  shows "matchesPattern (base @ CHR ''/'' # p @ s @ ''/'') (PString (base @ CHR ''/'' # p @ ''**''))
           = Inr True
         \<and> (t \<noteq> [] \<longrightarrow>
              matchesPattern (base @ CHR ''/'' # p @ s @ CHR ''/'' # t)
                (PString (base @ CHR ''/'' # p @ ''**'')) = Inr False)
         \<and> (set p \<inter> set escapedChars = {} \<longrightarrow>
              matchesPattern (base @ CHR ''/'' # p @ s @ ''/'') (PString (base @ CHR ''/'' # p @ ''*''))
                = Inr True
              \<and> (t \<noteq> [] \<longrightarrow>
                   matchesPattern (base @ CHR ''/'' # p @ s @ CHR ''/'' # t)
                     (PString (base @ CHR ''/'' # p @ ''*'')) = Inr False))
         \<and> matchesPattern (base @ CHR ''/'' # p @ replicate n CHR ''/'')
              (PString (base @ CHR ''/'' # p @ ''/**'')) = Inr True"
proof -
  let ?lit = "base @ CHR ''/'' # p"
  note yes = one_slash_then_nothing(1)[OF assms(6), of ?lit]
  have no: "\<not> (\<exists>s'. CHR ''/'' \<notin> set s'
               \<and> (?lit @ s @ CHR ''/'' # t = ?lit @ s' \<or> ?lit @ s @ CHR ''/'' # t = ?lit @ s' @ ''/''))"
    if "t \<noteq> []" using one_slash_then_nothing(2)[OF assms(6) that, of ?lit] .
  have stars: "matchesPattern (?lit @ s @ ''/'') (PString (?lit @ ''**'')) = Inr True"
    using prefix_stars_general[OF assms(1-5), of "?lit @ s @ ''/''"] yes by simp
  have stars': "matchesPattern (?lit @ s @ CHR ''/'' # t) (PString (?lit @ ''**'')) = Inr False"
    if "t \<noteq> []"
    using prefix_stars_general[OF assms(1-5), of "?lit @ s @ CHR ''/'' # t"] no[OF that] by simp
  have star: "matchesPattern (?lit @ s @ ''/'') (PString (?lit @ ''*'')) = Inr True"
    if "set p \<inter> set escapedChars = {}"
    using prefix_star_general[OF assms(1-5) that, of "?lit @ s @ ''/''"] yes by simp
  have star': "matchesPattern (?lit @ s @ CHR ''/'' # t) (PString (?lit @ ''*'')) = Inr False"
    if "set p \<inter> set escapedChars = {}" and "t \<noteq> []"
    using prefix_star_general[OF assms(1-5) that(1), of "?lit @ s @ CHR ''/'' # t"] no[OF that(2)]
    by simp
  have lit: "CHR ''*'' \<notin> set ?lit" "hd ?lit = CHR ''/''" "?lit \<noteq> []"
    using assms(1,2,5) by (auto simp: rooted_def hd_append)
  have "?lit @ replicate n CHR ''/'' = ?lit
      \<or> (\<exists>u. ?lit @ replicate n CHR ''/'' = ?lit @ CHR ''/'' # u
              \<and> CHR 0x0A \<notin> set u \<and> CHR 0x0D \<notin> set u)"
  proof (cases n)
    case 0
    then show ?thesis by simp
  next
    case (Suc m)
    then have "?lit @ replicate n CHR ''/'' = ?lit @ CHR ''/'' # replicate m CHR ''/''
        \<and> CHR 0x0A \<notin> set (replicate m CHR ''/'') \<and> CHR 0x0D \<notin> set (replicate m CHR ''/'')"
      by auto
    then show ?thesis by blast
  qed
  then have deep: "matchesPattern (?lit @ replicate n CHR ''/'') (PString (?lit @ ''/**'')) = Inr True"
    using trailing_stars_general[OF lit, of "?lit @ replicate n CHR ''/''"] by simp
  from stars stars' star star' deep show ?thesis by simp
qed

theorem C9_witness:
  "CHR ''*'' \<notin> set '''' \<and> rooted '''' \<and> ''api'' \<noteq> [] \<and> CHR ''/'' \<notin> set ''api''
   \<and> CHR ''*'' \<notin> set ''api'' \<and> CHR ''/'' \<notin> set '''' \<and> ''x'' \<noteq> []
   \<and> set ''api'' \<inter> set escapedChars = {}
   \<and> matchesPattern ''/api/'' (PString ''/api/**'') = Inr True
   \<and> matchesPattern ''/api/'' (PString ''/api**'') = Inr True
   \<and> matchesPattern ''/api/'' (PString ''/api*'') = Inr True
   \<and> matchesPattern ''/api/x'' (PString ''/api*'') = Inr False
   \<and> matchesPattern ''/api/x'' (PString ''/api**'') = Inr False"
proof -
  have h: "CHR ''*'' \<notin> set ''''" "rooted ''''" "''api'' \<noteq> []" "CHR ''/'' \<notin> set ''api''"
    "CHR ''*'' \<notin> set ''api''" "CHR ''/'' \<notin> set ''''"
    by (simp_all add: rooted_def)
  have plain: "set ''api'' \<inter> set escapedChars = {}" by (simp add: escapedChars_def)
  have x: "''x'' \<noteq> []" by simp
  show ?thesis
    using C9_extra_trailing_slash[OF h, of "''x''" "Suc 0"] h plain x by simp
qed

end
